theory Spec2Isabelle
  imports Complex_Main
begin

section \<open>JavaScript numbers\<close>

text \<open>
  The gesture code computes with JavaScript numbers, IEEE 754 doubles. A number is modelled
  as a real (a finite double) or one of the three non-finite values: \<open>Infinity\<close>,
  \<open>-Infinity\<close> and \<open>NaN\<close>, which a JavaScript division by zero returns instead of raising.
  The sign of zero is left out.
\<close>

datatype number = Fin real | PInf | NInf | NaN

text \<open>
  Every arithmetic operation of the source rounds its exact result to a double, and a
  decimal literal denotes the double nearest to it. The rounding is a parameter of the
  model: \<open>rnd\<close> maps the exact result to the double that represents it, \<open>overflows\<close>
  tells that the exact result is beyond the largest double, and \<open>hypot\<close> is
  \<open>Math.hypot\<close> on two finite arguments, whose accuracy the language leaves to the
  implementation. What is proved for every such arithmetic holds for the doubles of the
  source.
\<close>

record arith =
  rnd :: "real \<Rightarrow> real"
  overflows :: "real \<Rightarrow> bool"
  hypot :: "real \<Rightarrow> real \<Rightarrow> real"

definition js_round :: "arith \<Rightarrow> real \<Rightarrow> number" where
  "js_round ar v =
     (if overflows ar v then (if 0 < v then PInf else NInf) else Fin (rnd ar v))"

fun js_add :: "arith \<Rightarrow> number \<Rightarrow> number \<Rightarrow> number" where
  "js_add ar (Fin a) (Fin b) = js_round ar (a + b)"
| "js_add ar (Fin a) PInf = PInf"
| "js_add ar (Fin a) NInf = NInf"
| "js_add ar PInf (Fin b) = PInf"
| "js_add ar PInf PInf = PInf"
| "js_add ar PInf NInf = NaN"
| "js_add ar NInf (Fin b) = NInf"
| "js_add ar NInf NInf = NInf"
| "js_add ar NInf PInf = NaN"
| "js_add ar NaN b = NaN"
| "js_add ar a NaN = NaN"

fun js_div :: "arith \<Rightarrow> number \<Rightarrow> number \<Rightarrow> number" where
  "js_div ar (Fin a) (Fin b) =
     (if b \<noteq> 0 then js_round ar (a / b)
      else if a = 0 then NaN else if 0 < a then PInf else NInf)"
| "js_div ar (Fin a) PInf = Fin 0"
| "js_div ar (Fin a) NInf = Fin 0"
| "js_div ar PInf (Fin b) = (if 0 \<le> b then PInf else NInf)"
| "js_div ar NInf (Fin b) = (if 0 \<le> b then NInf else PInf)"
| "js_div ar PInf PInf = NaN"
| "js_div ar PInf NInf = NaN"
| "js_div ar NInf PInf = NaN"
| "js_div ar NInf NInf = NaN"
| "js_div ar NaN b = NaN"
| "js_div ar a NaN = NaN"

text \<open>\<open>a < b\<close> on numbers is exact; every comparison with \<open>NaN\<close> is false.\<close>

fun js_lt :: "number \<Rightarrow> number \<Rightarrow> bool" where
  "js_lt (Fin a) (Fin b) = (a < b)"
| "js_lt (Fin a) PInf = True"
| "js_lt NInf (Fin b) = True"
| "js_lt NInf PInf = True"
| "js_lt a b = False"

definition js_gt :: "number \<Rightarrow> number \<Rightarrow> bool" where
  "js_gt a b = js_lt b a"


section \<open>Data model\<close>

datatype AppState = CHAOS | FORMED | PHOTO_VIEW

text \<open>A point with the fields \<open>x\<close> and \<open>y\<close>: a normalised landmark (its \<open>z\<close> is never
  read) or the pointer position of a gesture.\<close>

datatype vec2 = Vec2 (xc: real) (yc: real)

record HandGesture =
  isFist :: bool
  isOpen :: bool
  isPinch :: bool
  position :: vec2


section \<open>Gesture classifier (HandController, hand present)\<close>

text \<open>
  Coordinates lie in [0, 1], so their sums and differences do not overflow and are rounded
  with \<open>rnd\<close>; a quotient can overflow (a divisor close to 0) and is a number.
  \<open>getDist idx\<close>: distance from the wrist \<open>landmarks[0]\<close> to \<open>landmarks[idx]\<close>.
\<close>

definition getDist :: "arith \<Rightarrow> vec2 list \<Rightarrow> nat \<Rightarrow> real" where
  "getDist ar landmarks idx =
     hypot ar (rnd ar (xc (landmarks ! idx) - xc (landmarks ! 0)))
              (rnd ar (yc (landmarks ! idx) - yc (landmarks ! 0)))"

text \<open>\<open>getRatio tipIdx mcpIdx = getDist(tipIdx) / getDist(mcpIdx)\<close>, with JavaScript's
  division: there is no guard on the divisor.\<close>

definition getRatio :: "arith \<Rightarrow> vec2 list \<Rightarrow> nat \<Rightarrow> nat \<Rightarrow> number" where
  "getRatio ar landmarks tipIdx mcpIdx =
     js_div ar (Fin (getDist ar landmarks tipIdx)) (Fin (getDist ar landmarks mcpIdx))"

definition avgRatio :: "arith \<Rightarrow> vec2 list \<Rightarrow> number" where
  "avgRatio ar landmarks =
     js_div ar
       (js_add ar
          (js_add ar (js_add ar (getRatio ar landmarks 8 5) (getRatio ar landmarks 12 9))
             (getRatio ar landmarks 16 13))
          (getRatio ar landmarks 20 17))
       (Fin 4)"

definition nonIndexRatio :: "arith \<Rightarrow> vec2 list \<Rightarrow> number" where
  "nonIndexRatio ar landmarks =
     js_div ar
       (js_add ar (js_add ar (getRatio ar landmarks 12 9) (getRatio ar landmarks 16 13))
          (getRatio ar landmarks 20 17))
       (Fin 3)"

definition pinchDist :: "arith \<Rightarrow> vec2 list \<Rightarrow> real" where
  "pinchDist ar landmarks =
     hypot ar (rnd ar (xc (landmarks ! 4) - xc (landmarks ! 8)))
              (rnd ar (yc (landmarks ! 4) - yc (landmarks ! 8)))"

text \<open>The literals 0.08, 0.15, 1.2, 1.35 and 1.6 are no doubles and are rounded; 1.25,
  1.5 and the whole numbers are doubles.\<close>

definition isPinchCandidate :: "arith \<Rightarrow> vec2 list \<Rightarrow> bool" where
  "isPinchCandidate ar landmarks = (pinchDist ar landmarks < rnd ar 0.08)"

text \<open>\<open>spreadWidth / (palmWidth || 1)\<close>: the palm width is finite, so it is falsy exactly
  when it is 0.\<close>

definition spreadFactor :: "arith \<Rightarrow> vec2 list \<Rightarrow> number" where
  "spreadFactor ar landmarks =
     (let palmWidth = hypot ar (rnd ar (xc (landmarks ! 5) - xc (landmarks ! 17)))
                               (rnd ar (yc (landmarks ! 5) - yc (landmarks ! 17)));
          spreadWidth = hypot ar (rnd ar (xc (landmarks ! 8) - xc (landmarks ! 20)))
                                 (rnd ar (yc (landmarks ! 8) - yc (landmarks ! 20)))
      in js_div ar (Fin spreadWidth) (Fin (if palmWidth = 0 then 1 else palmWidth)))"

text \<open>The three rules, an \<open>if / else if / else\<close> chain in the source.\<close>

definition rule_fist :: "arith \<Rightarrow> vec2 list \<Rightarrow> bool" where
  "rule_fist ar landmarks = js_lt (avgRatio ar landmarks) (Fin (rnd ar 1.35))"

definition rule_pinch :: "arith \<Rightarrow> vec2 list \<Rightarrow> bool" where
  "rule_pinch ar landmarks =
     (\<not> rule_fist ar landmarks \<and> isPinchCandidate ar landmarks
      \<and> js_gt (nonIndexRatio ar landmarks) (Fin (rnd ar 1.2)))"

definition rule_open :: "arith \<Rightarrow> vec2 list \<Rightarrow> bool" where
  "rule_open ar landmarks =
     (\<not> rule_fist ar landmarks \<and> \<not> rule_pinch ar landmarks
      \<and> (js_gt (avgRatio ar landmarks) (Fin 1.5)
         \<or> (js_gt (spreadFactor ar landmarks) (Fin (rnd ar 1.6))
            \<and> js_gt (avgRatio ar landmarks) (Fin 1.25))))"

definition rawPos :: "arith \<Rightarrow> vec2 list \<Rightarrow> vec2" where
  "rawPos ar landmarks =
     (if rule_pinch ar landmarks \<or> pinchDist ar landmarks < rnd ar 0.15
      then Vec2 (rnd ar (rnd ar (xc (landmarks ! 4) + xc (landmarks ! 8)) / 2))
                (rnd ar (rnd ar (yc (landmarks ! 4) + yc (landmarks ! 8)) / 2))
      else Vec2 (rnd ar (rnd ar (xc (landmarks ! 5) + xc (landmarks ! 17)) / 2))
                (rnd ar (rnd ar (yc (landmarks ! 5) + yc (landmarks ! 17)) / 2)))"

text \<open>
  The verdict handed to \<open>setGesture\<close>. Reading \<open>landmarks[idx].x\<close> beyond the end of the
  array raises a TypeError; the largest index read is 20, and it is read on every path, so
  the classifier returns \<open>None\<close> exactly for an array of fewer than 21 landmarks.
\<close>

definition classify :: "arith \<Rightarrow> vec2 list \<Rightarrow> HandGesture option" where
  "classify ar landmarks =
     (if length landmarks < 21 then None
      else Some \<lparr> isFist = rule_fist ar landmarks,
                  isOpen = rule_open ar landmarks,
                  isPinch = rule_pinch ar landmarks,
                  position = Vec2 (rnd ar (1 - xc (rawPos ar landmarks)))
                                  (yc (rawPos ar landmarks)) \<rparr>)"


section \<open>Debounced state controller (HandController, actions)\<close>

text \<open>
  The ray \<open>raycaster.setFromCamera(new Vector2(ndcX, ndcY), camera)\<close> builds. The camera
  belongs to the rendering library, so a ray is identified by the point in normalised
  device coordinates it is cast through.
\<close>

datatype ray = Ray (ndcX: real) (ndcY: real)

text \<open>
  The callbacks a frame invokes, in order. \<open>setGesture\<close>, \<open>setAppState\<close> and
  \<open>setActivePhotoId\<close> are React state setters: the value is seen from the next render on,
  while the running frame keeps reading the \<open>appState\<close> it was rendered with.
\<close>

datatype call =
    SetGesture HandGesture
  | OnPinch ray
  | SetAppState AppState
  | SetActivePhotoId "nat option"

text \<open>The refs of HandController: \<open>gestureTimeoutRef\<close> (0 at mount) and
  \<open>wasPinchingRef\<close> (false at mount). \<open>Date.now()\<close> is a whole number of milliseconds.\<close>

record refs =
  gestureTimeoutRef :: int
  wasPinchingRef :: bool

definition initialRefs :: refs where
  "initialRefs = \<lparr> gestureTimeoutRef = 0, wasPinchingRef = False \<rparr>"

text \<open>PINCH ACTION: the callbacks and the cooldown after the block.\<close>

definition pinchAction :: "HandGesture \<Rightarrow> int \<Rightarrow> refs \<Rightarrow> call list \<times> int" where
  "pinchAction g now r =
     (if isPinch g
      then ((if \<not> wasPinchingRef r
             then [OnPinch (Ray (xc (position g) * 2 - 1) (- (yc (position g) * 2) + 1))]
             else []),
            now + 500)
      else ([], gestureTimeoutRef r))"

text \<open>STATE SWITCHING (Fist/Open), given the cooldown \<open>t\<close> the pinch block left.\<close>

definition stateSwitching :: "AppState \<Rightarrow> HandGesture \<Rightarrow> int \<Rightarrow> int \<Rightarrow> call list \<times> int" where
  "stateSwitching appState g now t =
     (if t < now \<and> \<not> isPinch g
      then (if isFist g
            then (if appState = CHAOS then ([SetAppState FORMED], now + 1000) else ([], t))
            else if isOpen g
            then (if appState = FORMED \<or> appState = PHOTO_VIEW
                  then ([SetAppState CHAOS], now + 1000) else ([], t))
            else ([], t))
      else ([], t))"

text \<open>The branch of a frame with a hand, from \<open>setGesture\<close> on.\<close>

definition handPresent :: "AppState \<Rightarrow> HandGesture \<Rightarrow> int \<Rightarrow> refs \<Rightarrow> call list \<times> refs" where
  "handPresent appState g now r =
     (let (pinchCalls, t1) = pinchAction g now r;
          (switchCalls, t2) = stateSwitching appState g now t1
      in (SetGesture g # pinchCalls @ switchCalls,
          \<lparr> gestureTimeoutRef = t2, wasPinchingRef = isPinch g \<rparr>))"

text \<open>The branch of a frame with no hand.\<close>

definition noGesture :: HandGesture where
  "noGesture = \<lparr> isFist = False, isOpen = False, isPinch = False, position = Vec2 0.5 0.5 \<rparr>"

definition handAbsent :: "refs \<Rightarrow> call list \<times> refs" where
  "handAbsent r = ([SetGesture noGesture], r\<lparr> wasPinchingRef := False \<rparr>)"

text \<open>
  What the landmark source gives a frame: \<open>Skipped\<close> when the video is not ready or shows
  the same video frame as before (the callback returns at once), \<open>NoHand\<close>, or the
  verdict of the classifier on the first hand.
\<close>

datatype tracking = Skipped | NoHand | Hand HandGesture

definition handController :: "AppState \<Rightarrow> tracking \<Rightarrow> int \<Rightarrow> refs \<Rightarrow> call list \<times> refs" where
  "handController appState tr now r =
     (case tr of
        Skipped \<Rightarrow> ([], r)
      | NoHand \<Rightarrow> handAbsent r
      | Hand g \<Rightarrow> handPresent appState g now r)"

text \<open>The detector's answer: \<open>results.landmarks\<close> is the list of detected hands.\<close>

datatype detection = NotReady | SameVideoFrame | Landmarks "vec2 list list"

definition observe :: "arith \<Rightarrow> detection \<Rightarrow> tracking option" where
  "observe ar d =
     (case d of
        NotReady \<Rightarrow> Some Skipped
      | SameVideoFrame \<Rightarrow> Some Skipped
      | Landmarks [] \<Rightarrow> Some NoHand
      | Landmarks (landmarks # _) \<Rightarrow> map_option Hand (classify ar landmarks))"


section \<open>Object picker (PhotoCloud)\<close>

text \<open>
  A candidate is the id \<open>photos[idx].id\<close> (the ids are 0 to 11) with the world position of
  \<open>children[idx]\<close>. \<open>distanceSqToPoint\<close> is the rendering library's, a parameter here.
  \<open>closestDist\<close> starts at \<open>Infinity\<close>, \<open>closestId\<close> at -1.
\<close>

definition visit :: "(ray \<Rightarrow> 'p \<Rightarrow> real) \<Rightarrow> ray \<Rightarrow> number \<times> int \<Rightarrow> nat \<times> 'p \<Rightarrow> number \<times> int" where
  "visit distanceSqToPoint r acc c =
     (let dist = distanceSqToPoint r (snd c)
      in if dist < 5.0
         then (if js_lt (Fin dist) (fst acc) then (Fin dist, int (fst c)) else acc)
         else acc)"

fun scan :: "(ray \<Rightarrow> 'p \<Rightarrow> real) \<Rightarrow> ray \<Rightarrow> (nat \<times> 'p) list \<Rightarrow> number \<times> int \<Rightarrow> number \<times> int" where
  "scan distanceSqToPoint r [] acc = acc"
| "scan distanceSqToPoint r (c # cs) acc =
     scan distanceSqToPoint r cs (visit distanceSqToPoint r acc c)"

definition closestId :: "(ray \<Rightarrow> 'p \<Rightarrow> real) \<Rightarrow> ray \<Rightarrow> (nat \<times> 'p) list \<Rightarrow> int" where
  "closestId distanceSqToPoint r cs = snd (scan distanceSqToPoint r cs (PInf, - 1))"

text \<open>
  The picking block of a frame: the callbacks and the new \<open>rayRef\<close>. \<open>children = None\<close>
  is \<open>groupRef.current\<close> still null, where the callback returns at once.
\<close>

definition photoCloud ::
  "(ray \<Rightarrow> 'p \<Rightarrow> real) \<Rightarrow> AppState \<Rightarrow> (nat \<times> 'p) list option \<Rightarrow> ray option
     \<Rightarrow> call list \<times> ray option" where
  "photoCloud distanceSqToPoint appState children rayRef =
     (case children of
        None \<Rightarrow> ([], rayRef)
      | Some cs \<Rightarrow>
          (case rayRef of
             Some r \<Rightarrow>
               (if appState \<noteq> PHOTO_VIEW
                then (let cid = closestId distanceSqToPoint r cs
                      in if cid \<noteq> - 1
                         then ([SetActivePhotoId (Some (nat cid)), SetAppState PHOTO_VIEW], None)
                         else ([], Some r))
                else ([], Some r))
           | None \<Rightarrow>
               (if appState \<noteq> PHOTO_VIEW then ([SetActivePhotoId None], None) else ([], None))))"


section \<open>A frame of the scene\<close>

text \<open>
  The state between frames: what App, Scene and PhotoCloud hold in React state, Scene's
  \<open>rayRef\<close> and the refs of HandController. App starts in \<open>FORMED\<close>; Scene starts
  \<open>progressRef\<close> at 1 when the state is \<open>FORMED\<close> and at 0 otherwise.
\<close>

record scene =
  appState :: AppState
  gesture :: HandGesture
  activePhotoId :: "nat option"
  rayRef :: "ray option"
  controller :: refs

definition initialScene :: scene where
  "initialScene =
     \<lparr> appState = FORMED, gesture = noGesture, activePhotoId = None, rayRef = None,
       controller = initialRefs \<rparr>"

definition initialProgress :: "AppState \<Rightarrow> real" where
  "initialProgress a = (if a = FORMED then 1 else 0)"

text \<open>\<open>handlePinch\<close> stores the ray in \<open>rayRef\<close> at once; the setters take effect when
  the frame is over, the last call of a setter winning.\<close>

fun handlePinch :: "call list \<Rightarrow> ray option \<Rightarrow> ray option" where
  "handlePinch [] rr = rr"
| "handlePinch (OnPinch r # cs) rr = handlePinch cs (Some r)"
| "handlePinch (_ # cs) rr = handlePinch cs rr"

fun commit :: "call list \<Rightarrow> scene \<Rightarrow> scene" where
  "commit [] s = s"
| "commit (SetGesture g # cs) s = commit cs (s\<lparr> gesture := g \<rparr>)"
| "commit (SetAppState a # cs) s = commit cs (s\<lparr> appState := a \<rparr>)"
| "commit (SetActivePhotoId i # cs) s = commit cs (s\<lparr> activePhotoId := i \<rparr>)"
| "commit (OnPinch r # cs) s = commit cs s"

record 'p frameInput =
  tracked :: tracking
  now :: int
  children :: "(nat \<times> 'p) list option"

text \<open>One rendered frame: HandController's callback, then PhotoCloud's (Scene mounts
  HandController first), both reading the \<open>appState\<close> of the last render.\<close>

definition frame :: "(ray \<Rightarrow> 'p \<Rightarrow> real) \<Rightarrow> 'p frameInput \<Rightarrow> scene \<Rightarrow> call list \<times> scene" where
  "frame distanceSqToPoint inp s =
     (let (hcCalls, r') = handController (appState s) (tracked inp) (now inp) (controller s);
          ray1 = handlePinch hcCalls (rayRef s);
          (pcCalls, ray2) = photoCloud distanceSqToPoint (appState s) (children inp) ray1
      in (hcCalls @ pcCalls,
          commit (hcCalls @ pcCalls) (s\<lparr> rayRef := ray2, controller := r' \<rparr>)))"

text \<open>A run of frames: the callbacks of each frame, and the scene after the last.\<close>

fun run :: "(ray \<Rightarrow> 'p \<Rightarrow> real) \<Rightarrow> 'p frameInput list \<Rightarrow> scene \<Rightarrow> call list list \<times> scene" where
  "run distanceSqToPoint [] s = ([], s)"
| "run distanceSqToPoint (inp # inps) s =
     (let (calls, s') = frame distanceSqToPoint inp s;
          (rest, s'') = run distanceSqToPoint inps s'
      in (calls # rest, s''))"

text \<open>Counting in the callbacks of a frame.\<close>

definition rays :: "call list \<Rightarrow> ray list" where
  "rays cs = concat (map (\<lambda>c. case c of OnPinch r \<Rightarrow> [r] | _ \<Rightarrow> []) cs)"

definition transitions :: "call list \<Rightarrow> AppState list" where
  "transitions cs = concat (map (\<lambda>c. case c of SetAppState a \<Rightarrow> [a] | _ \<Rightarrow> []) cs)"


section \<open>Vocabulary of the properties\<close>

text \<open>\<open>a <= b\<close> on numbers, false when either side is \<open>NaN\<close>.\<close>

fun js_le :: "number \<Rightarrow> number \<Rightarrow> bool" where
  "js_le (Fin a) (Fin b) = (a \<le> b)"
| "js_le (Fin a) PInf = True"
| "js_le NInf (Fin b) = True"
| "js_le NInf PInf = True"
| "js_le PInf PInf = True"
| "js_le NInf NInf = True"
| "js_le a b = False"

text \<open>The verdict a frame feeds the controller.\<close>

definition pinchFrame :: "'p frameInput \<Rightarrow> bool" where
  "pinchFrame inp = (case tracked inp of Hand g \<Rightarrow> isPinch g | _ \<Rightarrow> False)"

definition fistFrame :: "'p frameInput \<Rightarrow> bool" where
  "fistFrame inp = (case tracked inp of Hand g \<Rightarrow> isFist g \<and> \<not> isPinch g | _ \<Rightarrow> False)"

definition openFrame :: "'p frameInput \<Rightarrow> bool" where
  "openFrame inp =
     (case tracked inp of Hand g \<Rightarrow> isOpen g \<and> \<not> isFist g \<and> \<not> isPinch g | _ \<Rightarrow> False)"

text \<open>The number of picks, the transitions to \<open>PHOTO_VIEW\<close>, and of transitions to
  \<open>FORMED\<close> in the callbacks of a run.\<close>

definition picks :: "call list list \<Rightarrow> nat" where
  "picks css = length (filter (\<lambda>a. a = PHOTO_VIEW) (concat (map transitions css)))"

definition formedCount :: "call list list \<Rightarrow> nat" where
  "formedCount css = length (filter (\<lambda>a. a = FORMED) (concat (map transitions css)))"

text \<open>The ray, if there is one, has a candidate at a squared distance below 5.0.\<close>

definition inReach :: "(ray \<Rightarrow> 'p \<Rightarrow> real) \<Rightarrow> ray option \<Rightarrow> (nat \<times> 'p) list option \<Rightarrow> bool" where
  "inReach d rr ch =
     (case rr of None \<Rightarrow> False
      | Some r \<Rightarrow> (case ch of None \<Rightarrow> False | Some cs \<Rightarrow> list_ex (\<lambda>c. d r (snd c) < 5) cs))"


section \<open>Concrete inputs\<close>

text \<open>The arithmetic that does not round: it agrees with the doubles wherever the exact
  result of every operation is itself a double.\<close>

definition exact :: arith where
  "exact = \<lparr> rnd = (\<lambda>v. v), overflows = (\<lambda>v. False), hypot = (\<lambda>a b. sqrt (a\<^sup>2 + b\<^sup>2)) \<rparr>"

text \<open>
  Hands drawn on the vertical line \<open>x = 0.5\<close>, the wrist at the bottom. In \<open>curledHand\<close>
  and \<open>pointingHand\<close> every coordinate is a multiple of 1/8 and every difference,
  distance, ratio, sum and mean the classifier computes is a double, so that the doubles
  give what \<open>exact\<close> gives. In \<open>curledHand\<close> the knuckles are 0.5 above the wrist and
  every fingertip, the thumb's too, lies halfway between wrist and knuckles.
\<close>

definition curledHand :: "vec2 list" where
  "curledHand =
     [Vec2 0.5 0.75,
      Vec2 0.5 0.5, Vec2 0.5 0.5, Vec2 0.5 0.5, Vec2 0.5 0.5,
      Vec2 0.5 0.25, Vec2 0.5 0.5, Vec2 0.5 0.5, Vec2 0.5 0.5,
      Vec2 0.5 0.25, Vec2 0.5 0.5, Vec2 0.5 0.5, Vec2 0.5 0.5,
      Vec2 0.5 0.25, Vec2 0.5 0.5, Vec2 0.5 0.5, Vec2 0.5 0.5,
      Vec2 0.5 0.25, Vec2 0.5 0.5, Vec2 0.5 0.5, Vec2 0.5 0.5]"

text \<open>In \<open>pointingHand\<close> the knuckles are 0.25 above the wrist, the index finger is
  stretched to three times that distance and touches the thumb, and the other three
  fingertips rest on their knuckles.\<close>

definition pointingHand :: "vec2 list" where
  "pointingHand =
     [Vec2 0.5 0.875,
      Vec2 0.5 0.75, Vec2 0.5 0.75, Vec2 0.5 0.75, Vec2 0.5 0.125,
      Vec2 0.5 0.625, Vec2 0.5 0.5, Vec2 0.5 0.25, Vec2 0.5 0.125,
      Vec2 0.5 0.625, Vec2 0.5 0.625, Vec2 0.5 0.625, Vec2 0.5 0.625,
      Vec2 0.5 0.625, Vec2 0.5 0.625, Vec2 0.5 0.625, Vec2 0.5 0.625,
      Vec2 0.5 0.625, Vec2 0.5 0.625, Vec2 0.5 0.625, Vec2 0.5 0.625]"

text \<open>Verdicts with the pointer at the centre.\<close>

definition fistVerdict :: HandGesture where
  "fistVerdict = \<lparr> isFist = True, isOpen = False, isPinch = False, position = Vec2 0.5 0.5 \<rparr>"

definition openVerdict :: HandGesture where
  "openVerdict = \<lparr> isFist = False, isOpen = True, isPinch = False, position = Vec2 0.5 0.5 \<rparr>"

definition pinchVerdict :: HandGesture where
  "pinchVerdict = \<lparr> isFist = False, isOpen = False, isPinch = True, position = Vec2 0.5 0.5 \<rparr>"

text \<open>Candidates whose position is a real, with that real as squared distance to any ray.\<close>

definition flatDist :: "ray \<Rightarrow> real \<Rightarrow> real" where
  "flatDist r p = p"

text \<open>The twelve photos, all out of reach in \<open>farCloud\<close>; in \<open>nearCloud\<close> photo 3 has
  drifted to squared distance 1.\<close>

definition farCloud :: "(nat \<times> real) list" where
  "farCloud = [(0, 6), (1, 7), (2, 8), (3, 9), (4, 10), (5, 11),
               (6, 12), (7, 13), (8, 14), (9, 15), (10, 16), (11, 17)]"

definition nearCloud :: "(nat \<times> real) list" where
  "nearCloud = [(0, 6), (1, 7), (2, 8), (3, 1), (4, 10), (5, 11),
                (6, 12), (7, 13), (8, 14), (9, 15), (10, 16), (11, 17)]"

definition feed :: "tracking \<Rightarrow> int \<Rightarrow> real frameInput" where
  "feed tr t = \<lparr> tracked = tr, now = t, children = Some farCloud \<rparr>"

definition feedNear :: "tracking \<Rightarrow> int \<Rightarrow> real frameInput" where
  "feedNear tr t = \<lparr> tracked = tr, now = t, children = Some nearCloud \<rparr>"

text \<open>Candidate lists: \<open>shelf\<close> has two candidates at the least distance, \<open>farShelf\<close>
  none below the threshold.\<close>

definition shelf :: "(nat \<times> real) list" where
  "shelf = [(0, 4.9), (1, 2), (2, 2), (3, 6)]"

definition farShelf :: "(nat \<times> real) list" where
  "farShelf = [(0, 5), (1, 6)]"

text \<open>Scenes and runs: the mount state switched to \<open>CHAOS\<close>; a fist held for 2000 ms;
  \<open>chaosScene\<close> after one Fist frame at 1000 ms (cooldown until 2000 ms); the mount state
  after one Open frame at 1000 ms (cooldown until 2000 ms); the mount state after one Pinch
  frame whose ray missed.\<close>

definition chaosScene :: scene where
  "chaosScene = initialScene\<lparr> appState := CHAOS \<rparr>"

definition persistentFist :: "real frameInput list" where
  "persistentFist = map (feed (Hand fistVerdict)) [1000, 1500, 2000, 2500, 3000]"

definition formedScene :: scene where
  "formedScene = snd (frame flatDist (feed (Hand fistVerdict) 1000) chaosScene)"

definition cooledScene :: scene where
  "cooledScene = snd (frame flatDist (feed (Hand openVerdict) 1000) initialScene)"

definition midPinchScene :: scene where
  "midPinchScene = snd (frame flatDist (feed (Hand pinchVerdict) 1000) initialScene)"

text \<open>\<open>midPinchScene\<close> after an Open frame at 1600 ms: in \<open>CHAOS\<close>, the missed ray still
  pending, cooldown until 2600 ms. Then a fist held from 1700 ms to 4000 ms while photo 3
  is in reach, a fist held from 2000 ms to 3400 ms while every photo is out of reach, and
  frames of the mount state with no Open and no Pinch verdict.\<close>

definition pendingChaosScene :: scene where
  "pendingChaosScene = snd (frame flatDist (feed (Hand openVerdict) 1600) midPinchScene)"

definition heldFist :: "real frameInput list" where
  "heldFist = [feedNear (Hand fistVerdict) 1700, feedNear (Hand fistVerdict) 3000,
               feedNear (Hand fistVerdict) 4000]"

definition farFist :: "real frameInput list" where
  "farFist = map (feed (Hand fistVerdict)) [2000, 2700, 3400]"

definition idleFrames :: "real frameInput list" where
  "idleFrames = [feedNear (Hand fistVerdict) 1000, feedNear NoHand 1016, feedNear Skipped 1032]"

text \<open>A curled hand, knuckles 0.2 above the wrist and fingertips halfway, with the index
  knuckle (landmark 5) on the wrist.\<close>

definition knuckleOnWrist :: "vec2 list" where
  "knuckleOnWrist =
     [Vec2 0.5 0.9,
      Vec2 0.5 0.8, Vec2 0.5 0.8, Vec2 0.5 0.8, Vec2 0.5 0.8,
      Vec2 0.5 0.9, Vec2 0.5 0.8, Vec2 0.5 0.8, Vec2 0.5 0.8,
      Vec2 0.5 0.7, Vec2 0.5 0.8, Vec2 0.5 0.8, Vec2 0.5 0.8,
      Vec2 0.5 0.7, Vec2 0.5 0.8, Vec2 0.5 0.8, Vec2 0.5 0.8,
      Vec2 0.5 0.7, Vec2 0.5 0.8, Vec2 0.5 0.8, Vec2 0.5 0.8]"


section \<open>Basic facts\<close>

lemma exact_simps [simp]:
  "rnd exact v = v"
  "overflows exact v = False"
  "hypot exact 0 b = \<bar>b\<bar>"
  "js_round exact v = Fin v"
  by (simp_all add: exact_def js_round_def)

lemma js_le_not_gt: "js_le a b \<Longrightarrow> \<not> js_lt b a"
  by (cases a; cases b) auto

lemma rays_simps [simp]:
  "rays [] = []"
  "rays (SetGesture g # cs) = rays cs"
  "rays (OnPinch r # cs) = r # rays cs"
  "rays (SetAppState a # cs) = rays cs"
  "rays (SetActivePhotoId i # cs) = rays cs"
  "rays (cs @ cs') = rays cs @ rays cs'"
  by (simp_all add: rays_def)

lemma transitions_simps [simp]:
  "transitions [] = []"
  "transitions (SetGesture g # cs) = transitions cs"
  "transitions (OnPinch r # cs) = transitions cs"
  "transitions (SetAppState a # cs) = a # transitions cs"
  "transitions (SetActivePhotoId i # cs) = transitions cs"
  "transitions (cs @ cs') = transitions cs @ transitions cs'"
  by (simp_all add: transitions_def)

lemma commit_controller [simp]: "controller (commit cs s) = controller s"
  by (induction cs s rule: commit.induct) simp_all

lemma commit_rayRef [simp]: "rayRef (commit cs s) = rayRef s"
  by (induction cs s rule: commit.induct) simp_all

lemma commit_appState:
  "appState (commit cs s) = (if transitions cs = [] then appState s else last (transitions cs))"
  by (induction cs s rule: commit.induct) simp_all

lemma handlePinch_rays:
  "handlePinch cs rr = (if rays cs = [] then rr else Some (last (rays cs)))"
  by (induction cs rr rule: handlePinch.induct) simp_all

lemma frame_calls:
  "fst (frame d inp s) =
     fst (handController (appState s) (tracked inp) (now inp) (controller s))
     @ fst (photoCloud d (appState s) (children inp)
             (handlePinch (fst (handController (appState s) (tracked inp) (now inp) (controller s)))
                (rayRef s)))"
  by (simp add: frame_def Let_def split_beta)

lemma frame_controller:
  "controller (snd (frame d inp s)) =
     snd (handController (appState s) (tracked inp) (now inp) (controller s))"
  by (simp add: frame_def Let_def split_beta)

lemma frame_rayRef:
  "rayRef (snd (frame d inp s)) =
     snd (photoCloud d (appState s) (children inp)
             (handlePinch (fst (handController (appState s) (tracked inp) (now inp) (controller s)))
                (rayRef s)))"
  by (simp add: frame_def Let_def split_beta)

lemma frame_appState:
  "appState (snd (frame d inp s)) =
     (if transitions (fst (frame d inp s)) = [] then appState s
      else last (transitions (fst (frame d inp s))))"
  by (simp add: frame_def Let_def split_beta commit_appState)

lemma photoCloud_rays [simp]: "rays (fst (photoCloud d a ch rr)) = []"
  by (simp add: photoCloud_def Let_def split: option.splits)

lemma frame_rays:
  "rays (fst (frame d inp s)) =
     rays (fst (handController (appState s) (tracked inp) (now inp) (controller s)))"
  by (simp add: frame_calls)

lemma handController_rays:
  "rays (fst (handController a tr t r)) =
     (case tr of Hand g \<Rightarrow>
        (if isPinch g \<and> \<not> wasPinchingRef r
         then [Ray (xc (position g) * 2 - 1) (- (yc (position g) * 2) + 1)] else [])
      | _ \<Rightarrow> [])"
  by (simp add: handController_def handPresent_def handAbsent_def pinchAction_def
        stateSwitching_def Let_def split_beta split: tracking.splits)

lemma handController_wasPinching:
  "wasPinchingRef (snd (handController a tr t r)) =
     (case tr of Hand g \<Rightarrow> isPinch g | NoHand \<Rightarrow> False | Skipped \<Rightarrow> wasPinchingRef r)"
  by (simp add: handController_def handPresent_def handAbsent_def Let_def split_beta
        split: tracking.splits)

lemma handController_timeout:
  "gestureTimeoutRef (snd (handController a tr t r)) =
     (case tr of
        Hand g \<Rightarrow>
          (if isPinch g then t + 500
           else if gestureTimeoutRef r < t \<and> isFist g \<and> a = CHAOS then t + 1000
           else if gestureTimeoutRef r < t \<and> \<not> isFist g \<and> isOpen g
                   \<and> (a = FORMED \<or> a = PHOTO_VIEW)
           then t + 1000
           else gestureTimeoutRef r)
      | _ \<Rightarrow> gestureTimeoutRef r)"
  by (simp add: handController_def handPresent_def handAbsent_def pinchAction_def
        stateSwitching_def Let_def split_beta split: tracking.splits)

lemma handController_transitions:
  "transitions (fst (handController a tr t r)) =
     (case tr of
        Hand g \<Rightarrow>
          (if isPinch g \<or> t \<le> gestureTimeoutRef r then []
           else if isFist g then (if a = CHAOS then [FORMED] else [])
           else if isOpen g then (if a = FORMED \<or> a = PHOTO_VIEW then [CHAOS] else [])
           else [])
      | _ \<Rightarrow> [])"
  by (auto simp add: handController_def handPresent_def handAbsent_def pinchAction_def
        stateSwitching_def Let_def split_beta split: tracking.splits)

lemma photoCloud_transitions_None [simp]: "transitions (fst (photoCloud d a ch None)) = []"
  by (simp add: photoCloud_def split: option.splits)

lemma photoCloud_ray_None [simp]: "snd (photoCloud d a ch None) = None"
  by (simp add: photoCloud_def split: option.splits)

lemma classify_exclusive:
  assumes "classify ar landmarks = Some g"
  shows "\<not> (isFist g \<and> isPinch g) \<and> \<not> (isFist g \<and> isOpen g) \<and> \<not> (isPinch g \<and> isOpen g)"
  using assms
  by (auto simp add: classify_def rule_pinch_def rule_open_def split: if_splits)

lemma classify_defined: "21 \<le> length landmarks \<Longrightarrow> classify ar landmarks \<noteq> None"
  by (simp add: classify_def)

lemma observe_no_hand: "observe ar (Landmarks []) = Some NoHand"
  by (simp add: observe_def)

lemma observe_hand:
  "observe ar (Landmarks (landmarks # hands)) = Some (Hand g)
     \<longleftrightarrow> classify ar landmarks = Some g"
  by (auto simp add: observe_def)

lemma getRatio_zero_divisor:
  assumes "getDist ar landmarks mcpIdx = 0"
  shows "getRatio ar landmarks tipIdx mcpIdx =
           (if getDist ar landmarks tipIdx = 0 then NaN
            else if 0 < getDist ar landmarks tipIdx then PInf else NInf)"
  using assms by (simp add: getRatio_def)

lemma curledHand_avgRatio: "avgRatio exact curledHand = Fin 0.5"
  by (simp add: avgRatio_def getRatio_def getDist_def curledHand_def)

lemma curledHand_pinchDist: "pinchDist exact curledHand = 0"
  by (simp add: pinchDist_def curledHand_def)

lemma pointingHand_nonIndexRatio: "nonIndexRatio exact pointingHand = Fin 1"
  by (simp add: nonIndexRatio_def getRatio_def getDist_def pointingHand_def)

lemma pointingHand_avgRatio: "avgRatio exact pointingHand = Fin 1.5"
  by (simp add: avgRatio_def getRatio_def getDist_def pointingHand_def)

lemma pointingHand_pinchDist: "pinchDist exact pointingHand = 0"
  by (simp add: pinchDist_def pointingHand_def)


lemma photoCloud_transitions_sub: "set (transitions (fst (photoCloud d a ch rr))) \<subseteq> {PHOTO_VIEW}"
  by (simp add: photoCloud_def Let_def split: option.splits)

lemma fistFrame_not_pinch: "fistFrame inp \<Longrightarrow> \<not> pinchFrame inp"
  by (simp add: fistFrame_def pinchFrame_def split: tracking.splits)

lemma openFrame_not_pinch: "openFrame inp \<Longrightarrow> \<not> pinchFrame inp"
  by (simp add: openFrame_def pinchFrame_def split: tracking.splits)

lemma commit_append: "commit (cs @ cs') s = commit cs' (commit cs s)"
  by (induction cs s rule: commit.induct) simp_all

lemma photoCloud_commit_gesture: "gesture (commit (fst (photoCloud d a ch rr)) s) = gesture s"
  by (simp add: photoCloud_def Let_def split: option.splits)

lemma formedScene_eval:
  "appState formedScene = FORMED" "rayRef formedScene = None"
  "controller formedScene = \<lparr> gestureTimeoutRef = 2000, wasPinchingRef = False \<rparr>"
  by (simp_all add: formedScene_def chaosScene_def initialScene_def
      initialRefs_def feed_def fistVerdict_def frame_def handController_def handPresent_def
      pinchAction_def stateSwitching_def photoCloud_def Let_def split_beta)

lemma cooledScene_eval:
  "controller cooledScene = \<lparr> gestureTimeoutRef = 2000, wasPinchingRef = False \<rparr>"
  by (simp add: cooledScene_def initialScene_def
      initialRefs_def feed_def openVerdict_def frame_def handController_def handPresent_def
      pinchAction_def stateSwitching_def photoCloud_def Let_def split_beta)

lemma scan_snoc: "scan d r (cs @ [c]) acc = visit d r (scan d r cs acc) c"
  by (induction cs arbitrary: acc) simp_all

lemma scan_invariant:
  "(scan d r cs (PInf, - 1) = (PInf, - 1) \<and> (\<forall>c\<in>set cs. 5 \<le> d r (snd c)))
   \<or> (\<exists>k<length cs. scan d r cs (PInf, - 1) = (Fin (d r (snd (cs ! k))), int (fst (cs ! k)))
        \<and> d r (snd (cs ! k)) < 5
        \<and> (\<forall>j<length cs. d r (snd (cs ! j)) < 5 \<longrightarrow> d r (snd (cs ! k)) \<le> d r (snd (cs ! j)))
        \<and> (\<forall>j<k. d r (snd (cs ! j)) < 5 \<longrightarrow> d r (snd (cs ! k)) < d r (snd (cs ! j))))"
proof (induction cs rule: rev_induct)
  case Nil
  then show ?case by simp
next
  case (snoc c cs)
  let ?n = "length cs"
  show ?case
  proof (cases "d r (snd c) < 5")
    case far: False
    then have same: "scan d r (cs @ [c]) (PInf, - 1) = scan d r cs (PInf, - 1)"
      by (simp add: scan_snoc visit_def)
    from snoc.IH show ?thesis
    proof
      assume "scan d r cs (PInf, - 1) = (PInf, - 1) \<and> (\<forall>c\<in>set cs. 5 \<le> d r (snd c))"
      with far same show ?thesis by auto
    next
      assume "\<exists>k<length cs. scan d r cs (PInf, - 1) = (Fin (d r (snd (cs ! k))), int (fst (cs ! k)))
        \<and> d r (snd (cs ! k)) < 5
        \<and> (\<forall>j<length cs. d r (snd (cs ! j)) < 5 \<longrightarrow> d r (snd (cs ! k)) \<le> d r (snd (cs ! j)))
        \<and> (\<forall>j<k. d r (snd (cs ! j)) < 5 \<longrightarrow> d r (snd (cs ! k)) < d r (snd (cs ! j)))"
      then obtain k where k: "k < ?n"
        and res: "scan d r cs (PInf, - 1) = (Fin (d r (snd (cs ! k))), int (fst (cs ! k)))"
        and near: "d r (snd (cs ! k)) < 5"
        and least: "\<forall>j<?n. d r (snd (cs ! j)) < 5 \<longrightarrow> d r (snd (cs ! k)) \<le> d r (snd (cs ! j))"
        and first: "\<forall>j<k. d r (snd (cs ! j)) < 5 \<longrightarrow> d r (snd (cs ! k)) < d r (snd (cs ! j))"
        by blast
      have "k < length (cs @ [c])" using k by simp
      moreover have "scan d r (cs @ [c]) (PInf, - 1) =
          (Fin (d r (snd ((cs @ [c]) ! k))), int (fst ((cs @ [c]) ! k)))"
        using k res same by (simp add: nth_append)
      moreover have "d r (snd ((cs @ [c]) ! k)) < 5"
        using k near by (simp add: nth_append)
      moreover have "\<forall>j<length (cs @ [c]). d r (snd ((cs @ [c]) ! j)) < 5
            \<longrightarrow> d r (snd ((cs @ [c]) ! k)) \<le> d r (snd ((cs @ [c]) ! j))"
        using k least far by (auto simp add: nth_append less_Suc_eq)
      moreover have "\<forall>j<k. d r (snd ((cs @ [c]) ! j)) < 5
            \<longrightarrow> d r (snd ((cs @ [c]) ! k)) < d r (snd ((cs @ [c]) ! j))"
        using k first by (auto simp add: nth_append)
      ultimately show ?thesis by blast
    qed
  next
    case near_c: True
    from snoc.IH show ?thesis
    proof
      assume a: "scan d r cs (PInf, - 1) = (PInf, - 1) \<and> (\<forall>c\<in>set cs. 5 \<le> d r (snd c))"
      then have res: "scan d r (cs @ [c]) (PInf, - 1) = (Fin (d r (snd c)), int (fst c))"
        using near_c by (simp add: scan_snoc visit_def)
      have far_all: "5 \<le> d r (snd (cs ! j))" if "j < ?n" for j
        using a that by simp
      have "?n < length (cs @ [c])" by simp
      moreover have "scan d r (cs @ [c]) (PInf, - 1) =
          (Fin (d r (snd ((cs @ [c]) ! ?n))), int (fst ((cs @ [c]) ! ?n)))"
        using res by simp
      moreover have "d r (snd ((cs @ [c]) ! ?n)) < 5"
        using near_c by simp
      moreover have "\<forall>j<length (cs @ [c]). d r (snd ((cs @ [c]) ! j)) < 5
            \<longrightarrow> d r (snd ((cs @ [c]) ! ?n)) \<le> d r (snd ((cs @ [c]) ! j))"
        using far_all by (fastforce simp add: nth_append less_Suc_eq)
      moreover have "\<forall>j<?n. d r (snd ((cs @ [c]) ! j)) < 5
            \<longrightarrow> d r (snd ((cs @ [c]) ! ?n)) < d r (snd ((cs @ [c]) ! j))"
        using far_all by (fastforce simp add: nth_append)
      ultimately show ?thesis by blast
    next
      assume "\<exists>k<length cs. scan d r cs (PInf, - 1) = (Fin (d r (snd (cs ! k))), int (fst (cs ! k)))
        \<and> d r (snd (cs ! k)) < 5
        \<and> (\<forall>j<length cs. d r (snd (cs ! j)) < 5 \<longrightarrow> d r (snd (cs ! k)) \<le> d r (snd (cs ! j)))
        \<and> (\<forall>j<k. d r (snd (cs ! j)) < 5 \<longrightarrow> d r (snd (cs ! k)) < d r (snd (cs ! j)))"
      then obtain k where k: "k < ?n"
        and res: "scan d r cs (PInf, - 1) = (Fin (d r (snd (cs ! k))), int (fst (cs ! k)))"
        and near: "d r (snd (cs ! k)) < 5"
        and least: "\<forall>j<?n. d r (snd (cs ! j)) < 5 \<longrightarrow> d r (snd (cs ! k)) \<le> d r (snd (cs ! j))"
        and first: "\<forall>j<k. d r (snd (cs ! j)) < 5 \<longrightarrow> d r (snd (cs ! k)) < d r (snd (cs ! j))"
        by blast
      show ?thesis
      proof (cases "d r (snd c) < d r (snd (cs ! k))")
        case closer: True
        then have res': "scan d r (cs @ [c]) (PInf, - 1) = (Fin (d r (snd c)), int (fst c))"
          using near_c res by (simp add: scan_snoc visit_def)
        have "?n < length (cs @ [c])" by simp
        moreover have "scan d r (cs @ [c]) (PInf, - 1) =
            (Fin (d r (snd ((cs @ [c]) ! ?n))), int (fst ((cs @ [c]) ! ?n)))"
          using res' by simp
        moreover have "d r (snd ((cs @ [c]) ! ?n)) < 5"
          using near_c by simp
        moreover have "\<forall>j<length (cs @ [c]). d r (snd ((cs @ [c]) ! j)) < 5
              \<longrightarrow> d r (snd ((cs @ [c]) ! ?n)) \<le> d r (snd ((cs @ [c]) ! j))"
          using least closer by (fastforce simp add: nth_append less_Suc_eq)
        moreover have "\<forall>j<?n. d r (snd ((cs @ [c]) ! j)) < 5
              \<longrightarrow> d r (snd ((cs @ [c]) ! ?n)) < d r (snd ((cs @ [c]) ! j))"
          using least closer by (fastforce simp add: nth_append)
        ultimately show ?thesis by blast
      next
        case not_closer: False
        then have res': "scan d r (cs @ [c]) (PInf, - 1) = scan d r cs (PInf, - 1)"
          using near_c res by (simp add: scan_snoc visit_def)
        have "k < length (cs @ [c])" using k by simp
        moreover have "scan d r (cs @ [c]) (PInf, - 1) =
            (Fin (d r (snd ((cs @ [c]) ! k))), int (fst ((cs @ [c]) ! k)))"
          using k res res' by (simp add: nth_append)
        moreover have "d r (snd ((cs @ [c]) ! k)) < 5"
          using k near by (simp add: nth_append)
        moreover have "\<forall>j<length (cs @ [c]). d r (snd ((cs @ [c]) ! j)) < 5
              \<longrightarrow> d r (snd ((cs @ [c]) ! k)) \<le> d r (snd ((cs @ [c]) ! j))"
          using k least not_closer by (auto simp add: nth_append less_Suc_eq)
        moreover have "\<forall>j<k. d r (snd ((cs @ [c]) ! j)) < 5
              \<longrightarrow> d r (snd ((cs @ [c]) ! k)) < d r (snd ((cs @ [c]) ! j))"
          using k first by (auto simp add: nth_append)
        ultimately show ?thesis by blast
      qed
    qed
  qed
qed

lemma shelf_eval: "closestId flatDist (Ray 0 0) shelf = 1"
  by (simp add: closestId_def shelf_def visit_def flatDist_def)

lemma farCloud_eval: "closestId flatDist r farCloud = - 1"
  by (simp add: closestId_def farCloud_def visit_def flatDist_def)

lemma nearCloud_eval: "closestId flatDist r nearCloud = 3"
  by (simp add: closestId_def nearCloud_def visit_def flatDist_def)

lemma handController_no_photo_view: "PHOTO_VIEW \<notin> set (transitions (fst (handController a tr t r)))"
  by (simp add: handController_transitions split: tracking.splits)

lemma photoCloud_cases:
  "(transitions (fst (photoCloud d a ch rr)) = [PHOTO_VIEW] \<and> snd (photoCloud d a ch rr) = None)
   \<or> (transitions (fst (photoCloud d a ch rr)) = [] \<and> snd (photoCloud d a ch rr) = rr)"
  by (simp add: photoCloud_def Let_def split: option.splits)

lemma picks_Nil [simp]: "picks [] = 0"
  by (simp add: picks_def)

lemma picks_Cons: "picks (cs # css) = length (filter (\<lambda>a. a = PHOTO_VIEW) (transitions cs)) + picks css"
  by (simp add: picks_def)

lemma frame_quiet:
  assumes "rays (fst (frame d inp s)) = []"
  shows "handlePinch (fst (handController (appState s) (tracked inp) (now inp) (controller s)))
           (rayRef s) = rayRef s"
  using assms by (simp add: frame_rays handlePinch_rays)

lemma frame_picks:
  assumes "rays (fst (frame d inp s)) = []"
  shows "(length (filter (\<lambda>a. a = PHOTO_VIEW) (transitions (fst (frame d inp s)))) = 1
            \<and> rayRef s \<noteq> None \<and> rayRef (snd (frame d inp s)) = None)
         \<or> (length (filter (\<lambda>a. a = PHOTO_VIEW) (transitions (fst (frame d inp s)))) = 0
            \<and> rayRef (snd (frame d inp s)) = rayRef s)"
proof -
  let ?hc = "handController (appState s) (tracked inp) (now inp) (controller s)"
  have hc: "filter (\<lambda>a. a = PHOTO_VIEW) (transitions (fst ?hc)) = []"
    using handController_no_photo_view [of "appState s" "tracked inp" "now inp" "controller s"]
    by (auto simp add: filter_empty_conv)
  from photoCloud_cases [of d "appState s" "children inp" "rayRef s"] show ?thesis
  proof
    assume "transitions (fst (photoCloud d (appState s) (children inp) (rayRef s))) = [PHOTO_VIEW]
      \<and> snd (photoCloud d (appState s) (children inp) (rayRef s)) = None"
    moreover from this have "rayRef s \<noteq> None"
      by (cases "rayRef s") simp_all
    ultimately show ?thesis
      using hc by (simp add: frame_calls frame_rayRef frame_quiet [OF assms])
  next
    assume "transitions (fst (photoCloud d (appState s) (children inp) (rayRef s))) = []
      \<and> snd (photoCloud d (appState s) (children inp) (rayRef s)) = rayRef s"
    then show ?thesis
      using hc by (simp add: frame_calls frame_rayRef frame_quiet [OF assms])
  qed
qed

lemma no_ray_no_pick:
  assumes "rayRef s = None" and "concat (map rays (fst (run d inps s))) = []"
  shows "picks (fst (run d inps s)) = 0"
  using assms
proof (induction inps arbitrary: s)
  case Nil
  then show ?case by simp
next
  case (Cons inp inps)
  from Cons.prems(2) have q: "rays (fst (frame d inp s)) = []"
    and rest: "concat (map rays (fst (run d inps (snd (frame d inp s))))) = []"
    by (simp_all add: Let_def split_beta)
  from frame_picks [OF q] Cons.prems(1)
  have "length (filter (\<lambda>a. a = PHOTO_VIEW) (transitions (fst (frame d inp s)))) = 0"
    and "rayRef (snd (frame d inp s)) = None"
    by auto
  with Cons.IH [OF _ rest] show ?case
    by (simp add: Let_def split_beta picks_Cons)
qed

lemma one_ray_one_pick:
  assumes "concat (map rays (fst (run d inps s))) = []"
  shows "picks (fst (run d inps s)) \<le> 1"
  using assms
proof (induction inps arbitrary: s)
  case Nil
  then show ?case by simp
next
  case (Cons inp inps)
  from Cons.prems have q: "rays (fst (frame d inp s)) = []"
    and rest: "concat (map rays (fst (run d inps (snd (frame d inp s))))) = []"
    by (simp_all add: Let_def split_beta)
  from frame_picks [OF q] show ?case
  proof
    assume "length (filter (\<lambda>a. a = PHOTO_VIEW) (transitions (fst (frame d inp s)))) = 1
            \<and> rayRef s \<noteq> None \<and> rayRef (snd (frame d inp s)) = None"
    with no_ray_no_pick [OF _ rest] show ?thesis
      by (simp add: Let_def split_beta picks_Cons)
  next
    assume "length (filter (\<lambda>a. a = PHOTO_VIEW) (transitions (fst (frame d inp s)))) = 0
            \<and> rayRef (snd (frame d inp s)) = rayRef s"
    with Cons.IH [OF rest] show ?thesis
      by (simp add: Let_def split_beta picks_Cons)
  qed
qed


lemma closestId_hit: "closestId d r cs \<noteq> - 1 \<longleftrightarrow> list_ex (\<lambda>c. d r (snd c) < 5) cs"
proof -
  from scan_invariant [of d r cs] show ?thesis
  proof
    assume a: "scan d r cs (PInf, - 1) = (PInf, - 1) \<and> (\<forall>c\<in>set cs. 5 \<le> d r (snd c))"
    then have "\<not> list_ex (\<lambda>c. d r (snd c) < 5) cs"
      by (auto simp add: list_ex_iff not_less)
    with a show ?thesis
      by (simp add: closestId_def)
  next
    assume "\<exists>k<length cs. scan d r cs (PInf, - 1) = (Fin (d r (snd (cs ! k))), int (fst (cs ! k)))
        \<and> d r (snd (cs ! k)) < 5
        \<and> (\<forall>j<length cs. d r (snd (cs ! j)) < 5 \<longrightarrow> d r (snd (cs ! k)) \<le> d r (snd (cs ! j)))
        \<and> (\<forall>j<k. d r (snd (cs ! j)) < 5 \<longrightarrow> d r (snd (cs ! k)) < d r (snd (cs ! j)))"
    then obtain k where k: "k < length cs"
      and res: "scan d r cs (PInf, - 1) = (Fin (d r (snd (cs ! k))), int (fst (cs ! k)))"
      and near: "d r (snd (cs ! k)) < 5"
      by blast
    from k near have "list_ex (\<lambda>c. d r (snd c) < 5) cs"
      using nth_mem [of k cs] by (auto simp add: list_ex_iff)
    with res show ?thesis
      by (simp add: closestId_def)
  qed
qed

lemma photoCloud_inReach:
  "transitions (fst (photoCloud d a ch rr)) =
     (if a \<noteq> PHOTO_VIEW \<and> inReach d rr ch then [PHOTO_VIEW] else [])"
  "snd (photoCloud d a ch rr) = (if a \<noteq> PHOTO_VIEW \<and> inReach d rr ch then None else rr)"
  by (simp_all add: photoCloud_def inReach_def closestId_hit Let_def split: option.splits)

lemma quiet_pending:
  assumes "\<not> pinchFrame inp"
  shows "handlePinch (fst (handController (appState s) (tracked inp) (now inp) (controller s)))
           (rayRef s) = rayRef s"
proof -
  from assms have "rays (fst (handController (appState s) (tracked inp) (now inp) (controller s))) = []"
    by (auto simp add: handController_rays pinchFrame_def split: tracking.splits)
  then show ?thesis
    by (simp add: handlePinch_rays)
qed

lemma quiet_frame:
  assumes "\<not> pinchFrame inp"
  shows "transitions (fst (frame d inp s)) =
           transitions (fst (handController (appState s) (tracked inp) (now inp) (controller s)))
           @ (if appState s \<noteq> PHOTO_VIEW \<and> inReach d (rayRef s) (children inp)
              then [PHOTO_VIEW] else [])"
    and "rayRef (snd (frame d inp s)) =
           (if appState s \<noteq> PHOTO_VIEW \<and> inReach d (rayRef s) (children inp)
            then None else rayRef s)"
  by (simp_all add: frame_calls frame_rayRef quiet_pending [OF assms] photoCloud_inReach)

lemma fist_frame_any:
  assumes "fistFrame inp"
  shows "transitions (fst (frame d inp s)) =
           (if gestureTimeoutRef (controller s) < now inp \<and> appState s = CHAOS then [FORMED] else [])
           @ (if appState s \<noteq> PHOTO_VIEW \<and> inReach d (rayRef s) (children inp)
              then [PHOTO_VIEW] else [])"
  using assms quiet_frame(1) [OF fistFrame_not_pinch [OF assms], of d s]
  by (auto simp add: handController_transitions fistFrame_def split: tracking.splits)

lemma formedCount_Nil [simp]: "formedCount [] = 0"
  by (simp add: formedCount_def)

lemma formedCount_Cons:
  "formedCount (cs # css) = length (filter (\<lambda>a. a = FORMED) (transitions cs)) + formedCount css"
  by (simp add: formedCount_def)

lemma fists_outside_chaos:
  assumes "appState s \<noteq> CHAOS" and "\<forall>f\<in>set inps. fistFrame f"
  shows "formedCount (fst (run d inps s)) = 0"
  using assms
proof (induction inps arbitrary: s)
  case Nil
  then show ?case by simp
next
  case (Cons inp inps)
  let ?s' = "snd (frame d inp s)"
  from Cons.prems have f: "fistFrame inp" and fs: "\<forall>f\<in>set inps. fistFrame f"
    by simp_all
  from fist_frame_any [OF f, of d s] Cons.prems(1)
  have t: "transitions (fst (frame d inp s)) = [] \<or> transitions (fst (frame d inp s)) = [PHOTO_VIEW]"
    by simp
  then have "appState ?s' \<noteq> CHAOS"
    using Cons.prems(1) by (auto simp add: frame_appState)
  from Cons.IH [OF this fs] t show ?case
    by (auto simp add: Let_def split_beta formedCount_Cons)
qed

lemma fists_at_most_once:
  assumes "\<forall>f\<in>set inps. fistFrame f"
  shows "formedCount (fst (run d inps s)) \<le> 1"
  using assms
proof (induction inps arbitrary: s)
  case Nil
  then show ?case by simp
next
  case (Cons inp inps)
  let ?s' = "snd (frame d inp s)"
  let ?T = "transitions (fst (frame d inp s))"
  from Cons.prems have f: "fistFrame inp" and fs: "\<forall>f\<in>set inps. fistFrame f"
    by simp_all
  note t = fist_frame_any [OF f, of d s]
  show ?case
  proof (cases "gestureTimeoutRef (controller s) < now inp \<and> appState s = CHAOS")
    case True
    with t have "?T = [FORMED] \<or> ?T = [FORMED, PHOTO_VIEW]"
      by auto
    then have c: "length (filter (\<lambda>a. a = FORMED) ?T) = 1" and "appState ?s' \<noteq> CHAOS"
      by (auto simp add: frame_appState)
    from fists_outside_chaos [OF this(2) fs, of d] c show ?thesis
      by (simp add: Let_def split_beta formedCount_Cons)
  next
    case False
    with t have "?T = [] \<or> ?T = [PHOTO_VIEW]"
      by auto
    then have "length (filter (\<lambda>a. a = FORMED) ?T) = 0"
      by auto
    with Cons.IH [OF fs, of ?s'] show ?thesis
      by (simp add: Let_def split_beta formedCount_Cons)
  qed
qed

lemma fist_frame_clear:
  assumes "fistFrame inp" and "\<not> inReach d (rayRef s) (children inp)"
  shows "transitions (fst (frame d inp s)) =
           (if gestureTimeoutRef (controller s) < now inp \<and> appState s = CHAOS then [FORMED] else [])"
    and "rayRef (snd (frame d inp s)) = rayRef s"
    and "gestureTimeoutRef (controller (snd (frame d inp s))) =
           (if gestureTimeoutRef (controller s) < now inp \<and> appState s = CHAOS then now inp + 1000
            else gestureTimeoutRef (controller s))"
proof -
  show "transitions (fst (frame d inp s)) =
           (if gestureTimeoutRef (controller s) < now inp \<and> appState s = CHAOS then [FORMED] else [])"
    by (simp add: fist_frame_any [OF assms(1)] assms(2))
  show "rayRef (snd (frame d inp s)) = rayRef s"
    by (simp add: quiet_frame(2) [OF fistFrame_not_pinch [OF assms(1)]] assms(2))
  from assms(1) show "gestureTimeoutRef (controller (snd (frame d inp s))) =
           (if gestureTimeoutRef (controller s) < now inp \<and> appState s = CHAOS then now inp + 1000
            else gestureTimeoutRef (controller s))"
    by (auto simp add: frame_controller handController_timeout fistFrame_def
        split: tracking.splits)
qed

lemma fist_run_idle:
  assumes "appState s \<noteq> CHAOS"
    and "\<forall>f\<in>set inps. fistFrame f \<and> \<not> inReach d (rayRef s) (children f)"
  shows "concat (map transitions (fst (run d inps s))) = []
     \<and> appState (snd (run d inps s)) = appState s"
  using assms
proof (induction inps arbitrary: s)
  case Nil
  then show ?case by simp
next
  case (Cons inp inps)
  let ?s' = "snd (frame d inp s)"
  from Cons.prems have f: "fistFrame inp" and c: "\<not> inReach d (rayRef s) (children inp)"
    by simp_all
  note fr = fist_frame_clear [OF f c]
  have t: "transitions (fst (frame d inp s)) = []"
    using fr(1) Cons.prems(1) by simp
  then have a: "appState ?s' = appState s"
    by (simp add: frame_appState)
  have "concat (map transitions (fst (run d inps ?s'))) = []
      \<and> appState (snd (run d inps ?s')) = appState ?s'"
    using Cons.IH [of ?s'] Cons.prems a fr(2) by simp
  with t a show ?case
    by (simp add: Let_def split_beta)
qed

lemma fist_run:
  assumes "appState s = CHAOS"
    and "\<forall>f\<in>set inps. fistFrame f \<and> \<not> inReach d (rayRef s) (children f)"
  shows "concat (map transitions (fst (run d inps s))) =
           (if \<exists>f\<in>set inps. gestureTimeoutRef (controller s) < now f then [FORMED] else [])
         \<and> appState (snd (run d inps s)) =
           (if \<exists>f\<in>set inps. gestureTimeoutRef (controller s) < now f then FORMED else CHAOS)"
  using assms
proof (induction inps arbitrary: s)
  case Nil
  then show ?case by simp
next
  case (Cons inp inps)
  let ?s' = "snd (frame d inp s)"
  from Cons.prems have f: "fistFrame inp" and c: "\<not> inReach d (rayRef s) (children inp)"
    and a0: "appState s = CHAOS"
    and rest: "\<forall>f\<in>set inps. fistFrame f \<and> \<not> inReach d (rayRef s) (children f)"
    by simp_all
  note fr = fist_frame_clear [OF f c]
  from rest fr(2) have rest': "\<forall>f\<in>set inps. fistFrame f \<and> \<not> inReach d (rayRef ?s') (children f)"
    by simp
  show ?case
  proof (cases "gestureTimeoutRef (controller s) < now inp")
    case True
    with fr(1) a0 have t: "transitions (fst (frame d inp s)) = [FORMED]" by simp
    then have a: "appState ?s' = FORMED" by (simp add: frame_appState)
    then have "appState ?s' \<noteq> CHAOS" by simp
    from fist_run_idle [OF this rest'] t a True show ?thesis
      by (simp add: Let_def split_beta)
  next
    case False
    with fr(1) have t: "transitions (fst (frame d inp s)) = []" by simp
    then have a: "appState ?s' = CHAOS" using a0 by (simp add: frame_appState)
    from False fr(3) have g: "gestureTimeoutRef (controller ?s') = gestureTimeoutRef (controller s)"
      by simp
    from Cons.IH [OF a rest'] t g False show ?thesis
      by (simp add: Let_def split_beta)
  qed
qed

lemma inReach_clouds [simp]:
  "\<not> inReach flatDist rr (Some farCloud)"
  "inReach flatDist (Some r) (Some nearCloud)"
  "\<not> inReach d None ch"
  by (simp_all add: inReach_def farCloud_def nearCloud_def flatDist_def split: option.splits)

lemma feed_simps [simp]:
  "tracked (feed tr t) = tr" "now (feed tr t) = t" "children (feed tr t) = Some farCloud"
  "tracked (feedNear tr t) = tr" "now (feedNear tr t) = t" "children (feedNear tr t) = Some nearCloud"
  by (simp_all add: feed_def feedNear_def)

lemma verdict_frames [simp]:
  "fistFrame (feed (Hand fistVerdict) t)" "fistFrame (feedNear (Hand fistVerdict) t)"
  "openFrame (feed (Hand openVerdict) t)" "openFrame (feedNear (Hand openVerdict) t)"
  "pinchFrame (feed (Hand pinchVerdict) t)"
  "\<not> pinchFrame (feed NoHand t)" "\<not> pinchFrame (feedNear NoHand t)"
  by (simp_all add: fistFrame_def openFrame_def pinchFrame_def fistVerdict_def openVerdict_def
      pinchVerdict_def)

lemma midPinchScene_eval:
  "appState midPinchScene = FORMED" "rayRef midPinchScene = Some (Ray 0 0)"
  "controller midPinchScene = \<lparr> gestureTimeoutRef = 1500, wasPinchingRef = True \<rparr>"
  by (simp_all add: midPinchScene_def initialScene_def initialRefs_def pinchVerdict_def
      frame_def handController_def handPresent_def pinchAction_def stateSwitching_def
      photoCloud_def farCloud_eval Let_def split_beta feed_def)

lemma pendingChaosScene_eval:
  "appState pendingChaosScene = CHAOS" "rayRef pendingChaosScene = Some (Ray 0 0)"
  "controller pendingChaosScene = \<lparr> gestureTimeoutRef = 2600, wasPinchingRef = False \<rparr>"
proof -
  have o: "openFrame (feed (Hand openVerdict) 1600 :: real frameInput)"
    by simp
  note q = quiet_frame [OF openFrame_not_pinch [OF o], of flatDist midPinchScene]
  have t: "transitions (fst (frame flatDist (feed (Hand openVerdict) 1600) midPinchScene)) = [CHAOS]"
    unfolding q(1)
    by (simp add: handController_transitions midPinchScene_eval openVerdict_def)
  then show "appState pendingChaosScene = CHAOS"
    by (simp add: pendingChaosScene_def frame_appState)
  show "rayRef pendingChaosScene = Some (Ray 0 0)"
    unfolding pendingChaosScene_def q(2)
    by (simp add: midPinchScene_eval)
  show "controller pendingChaosScene = \<lparr> gestureTimeoutRef = 2600, wasPinchingRef = False \<rparr>"
    by (simp add: pendingChaosScene_def frame_controller handController_def handPresent_def
        pinchAction_def stateSwitching_def midPinchScene_eval openVerdict_def Let_def split_beta)
qed

lemma stale_open_eval:
  "transitions (fst (frame flatDist (feedNear (Hand openVerdict) 2000) midPinchScene))
     = [CHAOS, PHOTO_VIEW]"
  "appState (snd (frame flatDist (feedNear (Hand openVerdict) 2000) midPinchScene)) = PHOTO_VIEW"
proof -
  have o: "openFrame (feedNear (Hand openVerdict) 2000 :: real frameInput)"
    by simp
  show t: "transitions (fst (frame flatDist (feedNear (Hand openVerdict) 2000) midPinchScene))
       = [CHAOS, PHOTO_VIEW]"
    unfolding quiet_frame(1) [OF openFrame_not_pinch [OF o]]
    by (simp add: handController_transitions midPinchScene_eval openVerdict_def)
  then show "appState (snd (frame flatDist (feedNear (Hand openVerdict) 2000) midPinchScene))
      = PHOTO_VIEW"
    by (simp add: frame_appState)
qed

lemma heldFist_eval:
  "map transitions (fst (run flatDist heldFist pendingChaosScene)) = [[PHOTO_VIEW], [], []]"
proof -
  let ?s1 = "snd (frame flatDist (feedNear (Hand fistVerdict) 1700) pendingChaosScene)"
  let ?s2 = "snd (frame flatDist (feedNear (Hand fistVerdict) 3000) ?s1)"
  have f: "fistFrame (feedNear (Hand fistVerdict) t :: real frameInput)" for t
    by simp
  have t1: "transitions (fst (frame flatDist (feedNear (Hand fistVerdict) 1700) pendingChaosScene))
      = [PHOTO_VIEW]"
    by (simp add: fist_frame_any [OF f] pendingChaosScene_eval)
  then have a1: "appState ?s1 = PHOTO_VIEW"
    by (simp add: frame_appState)
  have t2: "transitions (fst (frame flatDist (feedNear (Hand fistVerdict) 3000) ?s1)) = []"
    by (simp add: fist_frame_any [OF f] a1)
  have a2: "appState ?s2 = PHOTO_VIEW"
    by (subst frame_appState) (simp add: t2 a1)
  have t3: "transitions (fst (frame flatDist (feedNear (Hand fistVerdict) 4000) ?s2)) = []"
    by (simp add: fist_frame_any [OF f] a2)
  show ?thesis
    by (simp add: heldFist_def Let_def split_beta t1 t2 t3)
qed

lemma cooledScene_appState: "appState cooledScene = CHAOS"
  by (simp add: cooledScene_def initialScene_def
      initialRefs_def feed_def openVerdict_def frame_def handController_def handPresent_def
      pinchAction_def stateSwitching_def photoCloud_def Let_def split_beta)

lemma idle_frame:
  assumes "appState s = FORMED" and "rayRef s = None" and "\<not> openFrame inp" and "\<not> pinchFrame inp"
  shows "transitions (fst (frame d inp s)) = []" and "rayRef (snd (frame d inp s)) = None"
    and "appState (snd (frame d inp s)) = FORMED"
proof -
  have hc: "transitions (fst (handController (appState s) (tracked inp) (now inp) (controller s))) = []"
    using assms(1,3,4)
    by (auto simp add: handController_transitions openFrame_def pinchFrame_def
        split: tracking.splits)
  show t: "transitions (fst (frame d inp s)) = []"
    by (simp add: quiet_frame(1) [OF assms(4)] hc assms(2))
  show "rayRef (snd (frame d inp s)) = None"
    by (simp add: quiet_frame(2) [OF assms(4)] assms(2))
  show "appState (snd (frame d inp s)) = FORMED"
    by (simp add: frame_appState t assms(1))
qed

lemma idle_run:
  assumes "appState s = FORMED" and "rayRef s = None"
    and "\<forall>f\<in>set inps. \<not> openFrame f \<and> \<not> pinchFrame f"
  shows "concat (map transitions (fst (run d inps s))) = []
     \<and> appState (snd (run d inps s)) = FORMED"
  using assms
proof (induction inps arbitrary: s)
  case Nil
  then show ?case by simp
next
  case (Cons inp inps)
  from Cons.prems have o: "\<not> openFrame inp" and p: "\<not> pinchFrame inp"
    and rest: "\<forall>f\<in>set inps. \<not> openFrame f \<and> \<not> pinchFrame f"
    by simp_all
  note i = idle_frame [OF Cons.prems(1,2) o p, of d]
  from Cons.IH [OF i(3) i(2) rest] i(1) show ?case
    by (simp add: Let_def split_beta)
qed

lemma frame_change:
  assumes "appState (snd (frame d inp s)) \<noteq> appState s"
  shows "(gestureTimeoutRef (controller s) < now inp \<and> fistFrame inp \<and> appState s = CHAOS
          \<and> appState (snd (frame d inp s)) = FORMED)
       \<or> (gestureTimeoutRef (controller s) < now inp \<and> openFrame inp
          \<and> (appState s = FORMED \<or> appState s = PHOTO_VIEW)
          \<and> appState (snd (frame d inp s)) = CHAOS)
       \<or> (appState s \<noteq> PHOTO_VIEW \<and> appState (snd (frame d inp s)) = PHOTO_VIEW
          \<and> (inReach d (rayRef s) (children inp)
             \<or> (\<exists>r\<in>set (rays (fst (frame d inp s))). inReach d (Some r) (children inp))))"
proof -
  let ?hc = "handController (appState s) (tracked inp) (now inp) (controller s)"
  let ?P = "handlePinch (fst ?hc) (rayRef s)"
  let ?s' = "snd (frame d inp s)"
  have T: "transitions (fst (frame d inp s)) = transitions (fst ?hc)
      @ (if appState s \<noteq> PHOTO_VIEW \<and> inReach d ?P (children inp) then [PHOTO_VIEW] else [])"
    by (simp add: frame_calls photoCloud_inReach)
  show ?thesis
  proof (cases "appState s \<noteq> PHOTO_VIEW \<and> inReach d ?P (children inp)")
    case True
    with T have "appState ?s' = PHOTO_VIEW"
      by (simp add: frame_appState)
    moreover have "inReach d (rayRef s) (children inp)
             \<or> (\<exists>r\<in>set (rays (fst (frame d inp s))). inReach d (Some r) (children inp))"
    proof (cases "rays (fst ?hc) = []")
      case True
      with \<open>appState s \<noteq> PHOTO_VIEW \<and> inReach d ?P (children inp)\<close> show ?thesis
        by (simp add: handlePinch_rays)
    next
      case False
      then have "last (rays (fst ?hc)) \<in> set (rays (fst (frame d inp s)))"
        by (simp add: frame_rays)
      with False \<open>appState s \<noteq> PHOTO_VIEW \<and> inReach d ?P (children inp)\<close> show ?thesis
        by (auto simp add: handlePinch_rays)
    qed
    ultimately show ?thesis
      using True by blast
  next
    case False
    with T have T': "transitions (fst (frame d inp s)) = transitions (fst ?hc)"
      by auto
    with assms have ne: "transitions (fst ?hc) \<noteq> []"
      and last: "appState ?s' = last (transitions (fst ?hc))"
      by (auto simp add: frame_appState split: if_splits)
    show ?thesis
    proof (cases "tracked inp")
      case (Hand g)
      with ne last show ?thesis
        by (auto simp add: handController_transitions fistFrame_def openFrame_def
            split: if_splits)
    next
      case Skipped
      with ne show ?thesis
        by (simp add: handController_transitions)
    next
      case NoHand
      with ne show ?thesis
        by (simp add: handController_transitions)
    qed
  qed
qed


section \<open>Classifier\<close>

text \<open>
  C5. Whatever the rounding, every landmark set of 21 points whose average curl ratio
  \<open>avgRatio\<close>, as the classifier computes it, is below the literal 1.35 gets the Fist
  verdict (\<open>isFist\<close> set, \<open>isPinch\<close> and \<open>isOpen\<close> clear), whatever the distance between
  thumb tip and index tip.
\<close>

theorem classify_fist:
  assumes "21 \<le> length landmarks" and "js_lt (avgRatio ar landmarks) (Fin (rnd ar 1.35))"
  shows "\<exists>g. classify ar landmarks = Some g \<and> isFist g \<and> \<not> isPinch g \<and> \<not> isOpen g"
  using assms by (simp add: classify_def rule_fist_def rule_pinch_def rule_open_def)

text \<open>The curled hand is a pinch candidate (thumb tip on index tip) and still a fist.\<close>

theorem classify_fist_witness:
  "21 \<le> length curledHand \<and> js_lt (avgRatio exact curledHand) (Fin (rnd exact 1.35))
   \<and> isPinchCandidate exact curledHand
   \<and> (\<exists>g. classify exact curledHand = Some g \<and> isFist g \<and> \<not> isPinch g \<and> \<not> isOpen g)"
proof -
  have len: "21 \<le> length curledHand"
    by (simp add: curledHand_def)
  have avg: "js_lt (avgRatio exact curledHand) (Fin (rnd exact 1.35))"
    by (simp add: curledHand_avgRatio)
  have cand: "isPinchCandidate exact curledHand"
    by (simp add: isPinchCandidate_def curledHand_pinchDist)
  from classify_fist [OF len avg] len avg cand show ?thesis
    by blast
qed

text \<open>
  C6. Whatever the rounding, a landmark set of 21 points that is a pinch candidate (thumb
  tip closer than 0.08 to the index tip) but whose \<open>nonIndexRatio\<close>, the mean curl ratio
  of middle, ring and pinky as the classifier computes it, is at most the literal 1.2
  never gets the Pinch verdict.
\<close>

theorem classify_pinch_guard:
  assumes "21 \<le> length landmarks" and "isPinchCandidate ar landmarks"
    and "js_le (nonIndexRatio ar landmarks) (Fin (rnd ar 1.2))"
  shows "\<exists>g. classify ar landmarks = Some g \<and> \<not> isPinch g"
  using assms js_le_not_gt [of "nonIndexRatio ar landmarks" "Fin (rnd ar 1.2)"]
  by (simp add: classify_def rule_pinch_def js_gt_def)

text \<open>The pointing hand is no fist (its average ratio is 1.5), so the guard on
  \<open>nonIndexRatio\<close> is what keeps it from being a pinch.\<close>

theorem classify_pinch_guard_witness:
  "21 \<le> length pointingHand \<and> isPinchCandidate exact pointingHand
   \<and> js_le (nonIndexRatio exact pointingHand) (Fin (rnd exact 1.2))
   \<and> \<not> rule_fist exact pointingHand
   \<and> (\<exists>g. classify exact pointingHand = Some g \<and> \<not> isPinch g)"
proof -
  have len: "21 \<le> length pointingHand"
    by (simp add: pointingHand_def)
  have cand: "isPinchCandidate exact pointingHand"
    by (simp add: isPinchCandidate_def pointingHand_pinchDist)
  have rest: "js_le (nonIndexRatio exact pointingHand) (Fin (rnd exact 1.2))"
    by (simp add: pointingHand_nonIndexRatio)
  have nofist: "\<not> rule_fist exact pointingHand"
    by (simp add: rule_fist_def pointingHand_avgRatio)
  from classify_pinch_guard [OF len cand rest] len cand rest nofist show ?thesis
    by blast
qed


section \<open>Controller\<close>

text \<open>
  C4. Four frames fed to the controller with the verdicts not-pinch, pinch, pinch,
  not-pinch: the second frame, the rising edge, emits one PinchRay, cast through the
  pointer of its verdict; the first, third and fourth frame emit none.
\<close>

theorem pinch_rising_edge:
  assumes "tracked f1 \<noteq> Skipped" and "\<not> pinchFrame f1"
    and "tracked f2 = Hand g" and "isPinch g"
    and "pinchFrame f3" and "\<not> pinchFrame f4"
  shows "map rays (fst (run d [f1, f2, f3, f4] s)) =
           [[], [Ray (xc (position g) * 2 - 1) (- (yc (position g) * 2) + 1)], [], []]"
  using assms
  by (auto simp add: Let_def split_beta frame_rays frame_controller handController_rays
      handController_wasPinching pinchFrame_def split: tracking.splits)

theorem pinch_rising_edge_witness:
  "map rays (fst (run flatDist
       [feed (Hand openVerdict) 1000, feed (Hand pinchVerdict) 1016,
        feed (Hand pinchVerdict) 1032, feed (Hand openVerdict) 1048] initialScene)) =
     [[], [Ray 0 0], [], []]"
  using pinch_rising_edge [of "feed (Hand openVerdict) 1000" "feed (Hand pinchVerdict) 1016"
      pinchVerdict "feed (Hand pinchVerdict) 1032" "feed (Hand openVerdict) 1048"
      flatDist initialScene]
  by (simp add: feed_def pinchFrame_def openVerdict_def pinchVerdict_def)

text \<open>
  C3 (amended). From \<open>CHAOS\<close>, a run of Fist frames requests \<open>FORMED\<close> at most once; when
  on no frame of the run the picker has a pending ray with a candidate in reach, and at
  least one of the frames comes after the cooldown, the run calls \<open>setAppState\<close> exactly
  once, with \<open>FORMED\<close>, and ends in \<open>FORMED\<close>. An
  Open frame whose \<open>now\<close> is not after \<open>nextActionableTime\<close> requests no transition to
  \<open>CHAOS\<close> and leaves the cooldown alone. An Open frame whose \<open>now\<close> is after
  \<open>nextActionableTime\<close>, in state \<open>FORMED\<close> or \<open>PHOTO_VIEW\<close>, requests \<open>CHAOS\<close> and sets
  \<open>nextActionableTime\<close> to \<open>now + 1000\<close>; the state after the frame is \<open>CHAOS\<close>, unless
  the state was \<open>FORMED\<close> and the picker, with a pending ray that has a candidate in reach,
  picks on the same frame: then it is \<open>PHOTO_VIEW\<close>.
\<close>

theorem fist_open_debounce:
  "(appState s = CHAOS \<and> (\<forall>f\<in>set inps. fistFrame f)
    \<longrightarrow> formedCount (fst (run d inps s)) \<le> 1)
   \<and> (appState s = CHAOS
      \<and> (\<forall>f\<in>set inps. fistFrame f \<and> \<not> inReach d (rayRef s) (children f))
      \<and> (\<exists>f\<in>set inps. gestureTimeoutRef (controller s) < now f)
    \<longrightarrow> concat (map transitions (fst (run d inps s))) = [FORMED]
        \<and> appState (snd (run d inps s)) = FORMED)
   \<and> (openFrame inp \<and> now inp \<le> gestureTimeoutRef (controller s)
    \<longrightarrow> CHAOS \<notin> set (transitions (fst (frame d inp s)))
        \<and> gestureTimeoutRef (controller (snd (frame d inp s))) = gestureTimeoutRef (controller s))
   \<and> (openFrame inp \<and> gestureTimeoutRef (controller s) < now inp
      \<and> (appState s = FORMED \<or> appState s = PHOTO_VIEW)
    \<longrightarrow> CHAOS \<in> set (transitions (fst (frame d inp s)))
        \<and> gestureTimeoutRef (controller (snd (frame d inp s))) = now inp + 1000
        \<and> appState (snd (frame d inp s)) =
            (if appState s = FORMED \<and> inReach d (rayRef s) (children inp)
             then PHOTO_VIEW else CHAOS))"
proof (intro conjI impI)
  assume "appState s = CHAOS \<and> (\<forall>f\<in>set inps. fistFrame f)"
  then show "formedCount (fst (run d inps s)) \<le> 1"
    using fists_at_most_once [of inps d s] by simp
next
  assume h: "appState s = CHAOS
      \<and> (\<forall>f\<in>set inps. fistFrame f \<and> \<not> inReach d (rayRef s) (children f))
      \<and> (\<exists>f\<in>set inps. gestureTimeoutRef (controller s) < now f)"
  then have "appState s = CHAOS"
    "\<forall>f\<in>set inps. fistFrame f \<and> \<not> inReach d (rayRef s) (children f)"
    by simp_all
  from fist_run [OF this] h
  show "concat (map transitions (fst (run d inps s))) = [FORMED]"
    and "appState (snd (run d inps s)) = FORMED"
    by simp_all
next
  assume h: "openFrame inp \<and> now inp \<le> gestureTimeoutRef (controller s)"
  then have "transitions (fst (handController (appState s) (tracked inp) (now inp) (controller s))) = []"
    by (simp add: handController_transitions openFrame_def split: tracking.splits)
  then show "CHAOS \<notin> set (transitions (fst (frame d inp s)))"
    using photoCloud_transitions_sub [of d "appState s" "children inp"]
    by (auto simp add: frame_calls)
  from h show "gestureTimeoutRef (controller (snd (frame d inp s))) = gestureTimeoutRef (controller s)"
    by (simp add: frame_controller handController_timeout openFrame_def split: tracking.splits)
next
  assume h: "openFrame inp \<and> gestureTimeoutRef (controller s) < now inp
      \<and> (appState s = FORMED \<or> appState s = PHOTO_VIEW)"
  then have o: "openFrame inp" by simp
  from h have hc: "transitions (fst (handController (appState s) (tracked inp) (now inp) (controller s)))
      = [CHAOS]"
    by (auto simp add: handController_transitions openFrame_def split: tracking.splits)
  note t = quiet_frame(1) [OF openFrame_not_pinch [OF o], of d s, unfolded hc]
  from t show "CHAOS \<in> set (transitions (fst (frame d inp s)))"
    by simp
  from h show "gestureTimeoutRef (controller (snd (frame d inp s))) = now inp + 1000"
    by (auto simp add: frame_controller handController_timeout openFrame_def split: tracking.splits)
  from t h show "appState (snd (frame d inp s)) =
            (if appState s = FORMED \<and> inReach d (rayRef s) (children inp)
             then PHOTO_VIEW else CHAOS)"
    by (auto simp add: frame_appState)
qed

text \<open>The fist held over the pending ray with photo 3 in reach; a fist held from 1000 ms
  to 3000 ms in \<open>CHAOS\<close>; the fist held over the pending ray with every photo out of
  reach; after the first frame of the second, Open at 1500 ms (cooldown until 2000 ms) and at
  2016 ms; and Open at 2000 ms over the pending ray.\<close>

theorem fist_open_debounce_witness:
  "formedCount (fst (run flatDist heldFist pendingChaosScene)) \<le> 1
   \<and> concat (map transitions (fst (run flatDist persistentFist chaosScene))) = [FORMED]
   \<and> appState (snd (run flatDist persistentFist chaosScene)) = FORMED
   \<and> concat (map transitions (fst (run flatDist farFist pendingChaosScene))) = [FORMED]
   \<and> appState (snd (run flatDist farFist pendingChaosScene)) = FORMED
   \<and> CHAOS \<notin> set (transitions (fst (frame flatDist (feed (Hand openVerdict) 1500) formedScene)))
   \<and> gestureTimeoutRef (controller (snd (frame flatDist (feed (Hand openVerdict) 1500) formedScene)))
       = 2000
   \<and> CHAOS \<in> set (transitions (fst (frame flatDist (feed (Hand openVerdict) 2016) formedScene)))
   \<and> gestureTimeoutRef (controller (snd (frame flatDist (feed (Hand openVerdict) 2016) formedScene)))
       = 3016
   \<and> appState (snd (frame flatDist (feed (Hand openVerdict) 2016) formedScene)) = CHAOS
   \<and> appState (snd (frame flatDist (feedNear (Hand openVerdict) 2000) midPinchScene)) = PHOTO_VIEW"
proof -
  have fists: "\<forall>f\<in>set persistentFist.
      fistFrame f \<and> \<not> inReach flatDist (rayRef chaosScene) (children f)"
    by (simp add: persistentFist_def)
  have fars: "\<forall>f\<in>set farFist.
      fistFrame f \<and> \<not> inReach flatDist (rayRef pendingChaosScene) (children f)"
    by (simp add: farFist_def)
  have expiry: "\<exists>f\<in>set farFist. gestureTimeoutRef (controller pendingChaosScene) < now f"
    by (simp add: farFist_def pendingChaosScene_eval)
  have held: "\<forall>f\<in>set heldFist. fistFrame f"
    by (simp add: heldFist_def)
  have later: "\<exists>f\<in>set persistentFist. gestureTimeoutRef (controller chaosScene) < now f"
    by (simp add: persistentFist_def chaosScene_def initialScene_def initialRefs_def)
  have start: "appState chaosScene = CHAOS" "rayRef chaosScene = None"
    by (simp_all add: chaosScene_def initialScene_def)
  from fist_open_debounce [where s = pendingChaosScene and inps = heldFist and d = flatDist] held
  have zero: "formedCount (fst (run flatDist heldFist pendingChaosScene)) \<le> 1"
    by (simp add: pendingChaosScene_eval)
  from fist_open_debounce [where s = chaosScene and inps = persistentFist and d = flatDist]
    fists later start
  have one: "concat (map transitions (fst (run flatDist persistentFist chaosScene))) = [FORMED]
     \<and> appState (snd (run flatDist persistentFist chaosScene)) = FORMED"
    by blast
  from fist_open_debounce [where s = pendingChaosScene and inps = farFist and d = flatDist]
    fars expiry
  have far: "concat (map transitions (fst (run flatDist farFist pendingChaosScene))) = [FORMED]
     \<and> appState (snd (run flatDist farFist pendingChaosScene)) = FORMED"
    by (simp add: pendingChaosScene_eval)
  from fist_open_debounce [where s = formedScene and inp = "feed (Hand openVerdict) 1500"
      and d = flatDist]
  have two: "CHAOS \<notin> set (transitions (fst (frame flatDist (feed (Hand openVerdict) 1500) formedScene)))
   \<and> gestureTimeoutRef (controller (snd (frame flatDist (feed (Hand openVerdict) 1500) formedScene)))
       = 2000"
    by (simp add: formedScene_eval)
  from fist_open_debounce [where s = formedScene and inp = "feed (Hand openVerdict) 2016"
      and d = flatDist]
  have three: "CHAOS \<in> set (transitions (fst (frame flatDist (feed (Hand openVerdict) 2016) formedScene)))
   \<and> gestureTimeoutRef (controller (snd (frame flatDist (feed (Hand openVerdict) 2016) formedScene)))
       = 3016
   \<and> appState (snd (frame flatDist (feed (Hand openVerdict) 2016) formedScene)) = CHAOS"
    by (simp add: formedScene_eval)
  from fist_open_debounce [where s = midPinchScene and inp = "feedNear (Hand openVerdict) 2000"
      and d = flatDist]
  have four: "appState (snd (frame flatDist (feedNear (Hand openVerdict) 2000) midPinchScene))
      = PHOTO_VIEW"
    by (simp add: midPinchScene_eval)
  from zero one far two three four show ?thesis
    by blast
qed

text \<open>C3 as stated fails where a ray is pending. In \<open>FORMED\<close>, cooldown over, an Open frame
  requests \<open>CHAOS\<close>, the picker picks with the stale ray on the same frame, and the state
  after the frame is \<open>PHOTO_VIEW\<close>. In \<open>CHAOS\<close>, cooldown until 2600 ms, the picker picks
  on the first Fist frame, and the fist held until 4000 ms never transitions to \<open>FORMED\<close>.\<close>

theorem fist_open_counterexample:
  "appState midPinchScene = FORMED
   \<and> gestureTimeoutRef (controller midPinchScene) = 1500
   \<and> transitions (fst (frame flatDist (feedNear (Hand openVerdict) 2000) midPinchScene))
       = [CHAOS, PHOTO_VIEW]
   \<and> appState (snd (frame flatDist (feedNear (Hand openVerdict) 2000) midPinchScene)) = PHOTO_VIEW
   \<and> appState pendingChaosScene = CHAOS
   \<and> gestureTimeoutRef (controller pendingChaosScene) = 2600
   \<and> map transitions (fst (run flatDist heldFist pendingChaosScene)) = [[PHOTO_VIEW], [], []]"
  by (simp add: midPinchScene_eval pendingChaosScene_eval stale_open_eval heldFist_eval)

text \<open>
  C8. A frame with no hand publishes the gesture with \<open>isFist\<close>, \<open>isOpen\<close> and \<open>isPinch\<close>
  all false and the pointer at (0.5, 0.5), and clears \<open>wasPinching\<close>; a Pinch verdict on
  the next frame is therefore a rising edge and emits a PinchRay, whatever the controller
  held before tracking was lost.
\<close>

theorem lost_tracking_resets:
  assumes "tracked f1 = NoHand" and "tracked f2 = Hand g" and "isPinch g"
  shows "SetGesture \<lparr> isFist = False, isOpen = False, isPinch = False, position = Vec2 0.5 0.5 \<rparr>
           \<in> set (fst (frame d f1 s))
     \<and> gesture (snd (frame d f1 s)) =
         \<lparr> isFist = False, isOpen = False, isPinch = False, position = Vec2 0.5 0.5 \<rparr>
     \<and> \<not> wasPinchingRef (controller (snd (frame d f1 s)))
     \<and> rays (fst (frame d f2 (snd (frame d f1 s)))) =
         [Ray (xc (position g) * 2 - 1) (- (yc (position g) * 2) + 1)]"
proof -
  let ?none = "\<lparr> isFist = False, isOpen = False, isPinch = False, position = Vec2 0.5 0.5 \<rparr>"
  have hc: "handController (appState s) (tracked f1) (now f1) (controller s) =
          ([SetGesture ?none], (controller s)\<lparr> wasPinchingRef := False \<rparr>)"
    using assms(1) by (simp add: handController_def handAbsent_def noGesture_def)
  have 1: "SetGesture ?none \<in> set (fst (frame d f1 s))"
    by (simp add: frame_calls hc)
  have 2: "gesture (snd (frame d f1 s)) = ?none"
    by (simp add: frame_def hc Let_def split_beta photoCloud_commit_gesture)
  have 3: "\<not> wasPinchingRef (controller (snd (frame d f1 s)))"
    by (simp add: frame_controller hc)
  have 4: "rays (fst (frame d f2 (snd (frame d f1 s)))) =
         [Ray (xc (position g) * 2 - 1) (- (yc (position g) * 2) + 1)]"
    using assms(2,3) 3 by (simp add: frame_rays handController_rays)
  from 1 2 3 4 show ?thesis by blast
qed

text \<open>Pinch, then no hand, then pinch again: the first and the third frame each emit a
  ray.\<close>

theorem lost_tracking_resets_witness:
  "rays (fst (frame flatDist (feed (Hand pinchVerdict) 1000) initialScene)) = [Ray 0 0]
   \<and> wasPinchingRef (controller midPinchScene)
   \<and> rays (fst (frame flatDist (feed NoHand 1016) midPinchScene)) = []
   \<and> SetGesture \<lparr> isFist = False, isOpen = False, isPinch = False, position = Vec2 0.5 0.5 \<rparr>
       \<in> set (fst (frame flatDist (feed NoHand 1016) midPinchScene))
   \<and> gesture (snd (frame flatDist (feed NoHand 1016) midPinchScene)) =
       \<lparr> isFist = False, isOpen = False, isPinch = False, position = Vec2 0.5 0.5 \<rparr>
   \<and> \<not> wasPinchingRef (controller (snd (frame flatDist (feed NoHand 1016) midPinchScene)))
   \<and> rays (fst (frame flatDist (feed (Hand pinchVerdict) 1032)
        (snd (frame flatDist (feed NoHand 1016) midPinchScene)))) = [Ray 0 0]"
proof -
  have a: "rays (fst (frame flatDist (feed (Hand pinchVerdict) 1000) initialScene)) = [Ray 0 0]"
    by (simp add: frame_rays handController_rays feed_def pinchVerdict_def initialScene_def
        initialRefs_def)
  have b: "wasPinchingRef (controller midPinchScene)"
    by (simp add: midPinchScene_eval)
  have c: "rays (fst (frame flatDist (feed NoHand 1016) midPinchScene)) = []"
    by (simp add: frame_rays handController_rays feed_def)
  have "tracked (feed NoHand 1016) = NoHand" "tracked (feed (Hand pinchVerdict) 1032) = Hand pinchVerdict"
    "isPinch pinchVerdict" "position pinchVerdict = Vec2 0.5 0.5"
    by (simp_all add: feed_def pinchVerdict_def)
  with lost_tracking_resets [where ?f1.0 = "feed NoHand 1016"
      and ?f2.0 = "feed (Hand pinchVerdict) 1032" and g = pinchVerdict and d = flatDist
      and s = midPinchScene] a b c
  show ?thesis by simp
qed

text \<open>
  C2 (amended). A frame whose verdict is not Pinch never writes a smaller value to
  \<open>nextActionableTime\<close>: a state switch raises it to \<open>now + 1000\<close>, and any other such
  frame leaves it unchanged. The controller switches to \<open>FORMED\<close> exactly on a Fist frame
  after the cooldown in \<open>CHAOS\<close>, and to \<open>CHAOS\<close> exactly on an Open frame after the
  cooldown in \<open>FORMED\<close> or \<open>PHOTO_VIEW\<close>. A frame whose verdict is Pinch sets
  \<open>nextActionableTime\<close> to \<open>now + 500\<close>, whatever it held before.
\<close>

theorem cooldown_writes:
  "(\<not> pinchFrame inp
      \<longrightarrow> gestureTimeoutRef (controller s) \<le> gestureTimeoutRef (controller (snd (frame d inp s)))
          \<and> gestureTimeoutRef (controller (snd (frame d inp s))) =
              (if gestureTimeoutRef (controller s) < now inp
                  \<and> (fistFrame inp \<and> appState s = CHAOS
                     \<or> openFrame inp \<and> (appState s = FORMED \<or> appState s = PHOTO_VIEW))
               then now inp + 1000 else gestureTimeoutRef (controller s)))
   \<and> (FORMED \<in> set (transitions (fst (frame d inp s)))
      \<longleftrightarrow> gestureTimeoutRef (controller s) < now inp \<and> fistFrame inp \<and> appState s = CHAOS)
   \<and> (CHAOS \<in> set (transitions (fst (frame d inp s)))
      \<longleftrightarrow> gestureTimeoutRef (controller s) < now inp \<and> openFrame inp
          \<and> (appState s = FORMED \<or> appState s = PHOTO_VIEW))
   \<and> (pinchFrame inp
      \<longrightarrow> gestureTimeoutRef (controller (snd (frame d inp s))) = now inp + 500)"
proof (intro conjI impI)
  assume "\<not> pinchFrame inp"
  then show "gestureTimeoutRef (controller s) \<le> gestureTimeoutRef (controller (snd (frame d inp s)))"
    by (auto simp add: frame_controller handController_timeout pinchFrame_def
        split: tracking.splits)
next
  assume "\<not> pinchFrame inp"
  then show "gestureTimeoutRef (controller (snd (frame d inp s))) =
              (if gestureTimeoutRef (controller s) < now inp
                  \<and> (fistFrame inp \<and> appState s = CHAOS
                     \<or> openFrame inp \<and> (appState s = FORMED \<or> appState s = PHOTO_VIEW))
               then now inp + 1000 else gestureTimeoutRef (controller s))"
    by (auto simp add: frame_controller handController_timeout pinchFrame_def fistFrame_def
        openFrame_def split: tracking.splits)
next
  have pc: "FORMED \<notin> set (transitions (fst (photoCloud d a ch rr)))
     \<and> CHAOS \<notin> set (transitions (fst (photoCloud d a ch rr)))" for a ch rr
    using photoCloud_transitions_sub [of d a ch rr] by auto
  have fr: "set (transitions (fst (frame d inp s))) \<inter> {FORMED, CHAOS} =
      set (transitions (fst (handController (appState s) (tracked inp) (now inp) (controller s))))"
    using pc handController_no_photo_view [of "appState s" "tracked inp" "now inp" "controller s"]
    by (auto simp add: frame_calls) (metis AppState.exhaust)
  show "FORMED \<in> set (transitions (fst (frame d inp s)))
      \<longleftrightarrow> gestureTimeoutRef (controller s) < now inp \<and> fistFrame inp \<and> appState s = CHAOS"
  proof (cases "tracked inp")
    case (Hand g)
    have "FORMED \<in> set (transitions (fst (frame d inp s))) \<inter> {FORMED, CHAOS}
      \<longleftrightarrow> gestureTimeoutRef (controller s) < now inp \<and> fistFrame inp \<and> appState s = CHAOS"
      unfolding fr by (simp add: Hand handController_transitions fistFrame_def)
    then show ?thesis by simp
  next
    case Skipped
    have "FORMED \<in> set (transitions (fst (frame d inp s))) \<inter> {FORMED, CHAOS}
      \<longleftrightarrow> gestureTimeoutRef (controller s) < now inp \<and> fistFrame inp \<and> appState s = CHAOS"
      unfolding fr by (simp add: Skipped handController_transitions fistFrame_def)
    then show ?thesis by simp
  next
    case NoHand
    have "FORMED \<in> set (transitions (fst (frame d inp s))) \<inter> {FORMED, CHAOS}
      \<longleftrightarrow> gestureTimeoutRef (controller s) < now inp \<and> fistFrame inp \<and> appState s = CHAOS"
      unfolding fr by (simp add: NoHand handController_transitions fistFrame_def)
    then show ?thesis by simp
  qed
  show "CHAOS \<in> set (transitions (fst (frame d inp s)))
      \<longleftrightarrow> gestureTimeoutRef (controller s) < now inp \<and> openFrame inp
          \<and> (appState s = FORMED \<or> appState s = PHOTO_VIEW)"
  proof (cases "tracked inp")
    case (Hand g)
    have "CHAOS \<in> set (transitions (fst (frame d inp s))) \<inter> {FORMED, CHAOS}
      \<longleftrightarrow> gestureTimeoutRef (controller s) < now inp \<and> openFrame inp
          \<and> (appState s = FORMED \<or> appState s = PHOTO_VIEW)"
      unfolding fr by (auto simp add: Hand handController_transitions openFrame_def)
    then show ?thesis by simp
  next
    case Skipped
    have "CHAOS \<in> set (transitions (fst (frame d inp s))) \<inter> {FORMED, CHAOS}
      \<longleftrightarrow> gestureTimeoutRef (controller s) < now inp \<and> openFrame inp
          \<and> (appState s = FORMED \<or> appState s = PHOTO_VIEW)"
      unfolding fr by (simp add: Skipped handController_transitions openFrame_def)
    then show ?thesis by simp
  next
    case NoHand
    have "CHAOS \<in> set (transitions (fst (frame d inp s))) \<inter> {FORMED, CHAOS}
      \<longleftrightarrow> gestureTimeoutRef (controller s) < now inp \<and> openFrame inp
          \<and> (appState s = FORMED \<or> appState s = PHOTO_VIEW)"
      unfolding fr by (simp add: NoHand handController_transitions openFrame_def)
    then show ?thesis by simp
  qed
next
  assume "pinchFrame inp"
  then show "gestureTimeoutRef (controller (snd (frame d inp s))) = now inp + 500"
    by (auto simp add: frame_controller handController_timeout pinchFrame_def
        split: tracking.splits)
qed

text \<open>With the cooldown at 2000 ms in \<open>CHAOS\<close>: Fist at 3000 ms, Fist at 1500 ms, no hand
  at 3000 ms, and Pinch at 1100 ms.\<close>

theorem cooldown_writes_witness:
  "gestureTimeoutRef (controller cooledScene) = 2000
   \<and> gestureTimeoutRef (controller (snd (frame flatDist (feed (Hand fistVerdict) 3000) cooledScene)))
       = 4000
   \<and> FORMED \<in> set (transitions (fst (frame flatDist (feed (Hand fistVerdict) 3000) cooledScene)))
   \<and> gestureTimeoutRef (controller (snd (frame flatDist (feed (Hand fistVerdict) 1500) cooledScene)))
       = 2000
   \<and> gestureTimeoutRef (controller (snd (frame flatDist (feed NoHand 3000) cooledScene))) = 2000
   \<and> gestureTimeoutRef (controller (snd (frame flatDist (feed (Hand pinchVerdict) 1100) cooledScene)))
       = 1600"
proof -
  have no: "\<not> pinchFrame (feed (Hand fistVerdict) t :: real frameInput)" for t
    by (simp add: fistFrame_not_pinch)
  have nf: "\<not> fistFrame (feed NoHand t :: real frameInput)"
    "\<not> openFrame (feed NoHand t :: real frameInput)"
    "\<not> openFrame (feed (Hand fistVerdict) t :: real frameInput)" for t
    by (simp_all add: fistFrame_def openFrame_def fistVerdict_def)
  from cooldown_writes [where inp = "feed (Hand fistVerdict) 3000" and s = cooledScene
      and d = flatDist] no [of 3000]
  have 1: "gestureTimeoutRef (controller (snd (frame flatDist (feed (Hand fistVerdict) 3000)
      cooledScene))) = 4000
    \<and> FORMED \<in> set (transitions (fst (frame flatDist (feed (Hand fistVerdict) 3000) cooledScene)))"
    by (simp add: cooledScene_eval cooledScene_appState nf)
  from cooldown_writes [where inp = "feed (Hand fistVerdict) 1500" and s = cooledScene
      and d = flatDist] no [of 1500]
  have 2: "gestureTimeoutRef (controller (snd (frame flatDist (feed (Hand fistVerdict) 1500)
      cooledScene))) = 2000"
    by (simp add: cooledScene_eval)
  from cooldown_writes [where inp = "feed NoHand 3000" and s = cooledScene and d = flatDist]
  have 3: "gestureTimeoutRef (controller (snd (frame flatDist (feed NoHand 3000) cooledScene)))
      = 2000"
    by (simp add: cooledScene_eval nf)
  from cooldown_writes [where inp = "feed (Hand pinchVerdict) 1100" and s = cooledScene
      and d = flatDist]
  have 4: "gestureTimeoutRef (controller (snd (frame flatDist (feed (Hand pinchVerdict) 1100)
      cooledScene))) = 1600"
    by simp
  from 1 2 3 4 show ?thesis
    by (simp add: cooledScene_eval)
qed

text \<open>C2 as stated fails: Open at 1000 ms sets the cooldown to 2000 ms, and a pinch at
  1100 ms, while that cooldown is pending, lowers it to 1600 ms.\<close>

theorem cooldown_backward_counterexample:
  "gestureTimeoutRef (controller (snd (run flatDist [feed (Hand openVerdict) 1000] initialScene))) = 2000
   \<and> gestureTimeoutRef (controller (snd (run flatDist
         [feed (Hand openVerdict) 1000, feed (Hand pinchVerdict) 1100] initialScene))) = 1600"
  by (simp add: Let_def split_beta frame_controller frame_appState frame_calls handController_timeout
      handController_transitions
      feed_def openVerdict_def pinchVerdict_def initialScene_def initialRefs_def)

text \<open>
  C10. The scene starts in \<open>FORMED\<close>, with the morph progress at 1, and stays in \<open>FORMED\<close>
  over any run of frames from the mount that feeds no Open and no Pinch verdict. Whenever
  a frame changes the state, it is the controller acting on a gesture after the cooldown
  (Fist in \<open>CHAOS\<close> gives \<open>FORMED\<close>, Open in \<open>FORMED\<close> or \<open>PHOTO_VIEW\<close> gives \<open>CHAOS\<close>) or
  the picker, outside \<open>PHOTO_VIEW\<close>, with a pending or just emitted ray that has a
  candidate in reach (giving \<open>PHOTO_VIEW\<close>).
\<close>

theorem initial_state_formed:
  "appState initialScene = FORMED \<and> initialProgress (appState initialScene) = 1
   \<and> ((\<forall>f\<in>set inps. \<not> openFrame f \<and> \<not> pinchFrame f)
      \<longrightarrow> concat (map transitions (fst (run d inps initialScene))) = []
          \<and> appState (snd (run d inps initialScene)) = FORMED)
   \<and> (appState (snd (frame d inp s)) \<noteq> appState s
      \<longrightarrow> (gestureTimeoutRef (controller s) < now inp \<and> fistFrame inp \<and> appState s = CHAOS
            \<and> appState (snd (frame d inp s)) = FORMED)
          \<or> (gestureTimeoutRef (controller s) < now inp \<and> openFrame inp
            \<and> (appState s = FORMED \<or> appState s = PHOTO_VIEW)
            \<and> appState (snd (frame d inp s)) = CHAOS)
          \<or> (appState s \<noteq> PHOTO_VIEW \<and> appState (snd (frame d inp s)) = PHOTO_VIEW
            \<and> (inReach d (rayRef s) (children inp)
               \<or> (\<exists>r\<in>set (rays (fst (frame d inp s))). inReach d (Some r) (children inp)))))"
proof (intro conjI impI)
  show "appState initialScene = FORMED"
    by (simp add: initialScene_def)
  show "initialProgress (appState initialScene) = 1"
    by (simp add: initialScene_def initialProgress_def)
next
  assume "\<forall>f\<in>set inps. \<not> openFrame f \<and> \<not> pinchFrame f"
  with idle_run [of initialScene inps d]
  show "concat (map transitions (fst (run d inps initialScene))) = []"
    and "appState (snd (run d inps initialScene)) = FORMED"
    by (simp_all add: initialScene_def)
next
  assume "appState (snd (frame d inp s)) \<noteq> appState s"
  then show "(gestureTimeoutRef (controller s) < now inp \<and> fistFrame inp \<and> appState s = CHAOS
            \<and> appState (snd (frame d inp s)) = FORMED)
          \<or> (gestureTimeoutRef (controller s) < now inp \<and> openFrame inp
            \<and> (appState s = FORMED \<or> appState s = PHOTO_VIEW)
            \<and> appState (snd (frame d inp s)) = CHAOS)
          \<or> (appState s \<noteq> PHOTO_VIEW \<and> appState (snd (frame d inp s)) = PHOTO_VIEW
            \<and> (inReach d (rayRef s) (children inp)
               \<or> (\<exists>r\<in>set (rays (fst (frame d inp s))). inReach d (Some r) (children inp))))"
    by (rule frame_change)
qed

text \<open>A fist, no hand and a skipped frame after the mount; Open at 1000 ms after the mount;
  and Open at 2000 ms over the pending ray, where the picker has the last word.\<close>

theorem initial_state_formed_witness:
  "appState initialScene = FORMED \<and> initialProgress (appState initialScene) = 1
   \<and> concat (map transitions (fst (run flatDist idleFrames initialScene))) = []
   \<and> appState (snd (run flatDist idleFrames initialScene)) = FORMED
   \<and> appState (snd (frame flatDist (feed (Hand openVerdict) 1000) initialScene)) = CHAOS
   \<and> appState (snd (frame flatDist (feedNear (Hand openVerdict) 2000) midPinchScene)) = PHOTO_VIEW"
proof -
  have idle: "\<forall>f\<in>set idleFrames. \<not> openFrame f \<and> \<not> pinchFrame f"
    by (simp add: idleFrames_def openFrame_def pinchFrame_def fistVerdict_def)
  have c: "appState (snd (frame flatDist (feed (Hand openVerdict) 1000) initialScene)) \<noteq>
      appState initialScene"
    by (simp add: initialScene_def
      initialRefs_def feed_def openVerdict_def frame_def handController_def handPresent_def
      pinchAction_def stateSwitching_def photoCloud_def Let_def split_beta)
  have p: "appState (snd (frame flatDist (feedNear (Hand openVerdict) 2000) midPinchScene)) \<noteq>
      appState midPinchScene"
    by (simp add: stale_open_eval midPinchScene_eval)
  have nf: "\<not> fistFrame (feed (Hand openVerdict) t :: real frameInput)"
    "\<not> fistFrame (feedNear (Hand openVerdict) t :: real frameInput)" for t
    by (simp_all add: fistFrame_def openVerdict_def)
  from initial_state_formed [where d = flatDist and inps = idleFrames] idle
  have 1: "appState initialScene = FORMED \<and> initialProgress (appState initialScene) = 1
   \<and> concat (map transitions (fst (run flatDist idleFrames initialScene))) = []
   \<and> appState (snd (run flatDist idleFrames initialScene)) = FORMED"
    by blast
  from initial_state_formed [where d = flatDist and inp = "feed (Hand openVerdict) 1000"
      and s = initialScene] c
  have 2: "appState (snd (frame flatDist (feed (Hand openVerdict) 1000) initialScene)) = CHAOS"
    by (auto simp add: nf initialScene_def)
  from initial_state_formed [where d = flatDist and inp = "feedNear (Hand openVerdict) 2000"
      and s = midPinchScene] p
  have 3: "appState (snd (frame flatDist (feedNear (Hand openVerdict) 2000) midPinchScene))
      = PHOTO_VIEW"
    using stale_open_eval by (auto simp add: nf)
  from 1 2 3 show ?thesis
    by blast
qed


section \<open>Picker\<close>

text \<open>
  C7. When every candidate's squared distance to the ray is at least 5.0 the scan ends with
  \<open>closestId = -1\<close> and the picker requests no state transition. Otherwise the scan ends
  with the id of a candidate whose squared distance is below 5.0, is the least among the
  candidates below 5.0, and is strictly less than that of every earlier candidate below
  5.0 (the first of several at the least distance wins); outside \<open>PHOTO_VIEW\<close> the picker
  then reports that id and requests \<open>PHOTO_VIEW\<close>.
\<close>

theorem picker_nearest:
  "((\<forall>c\<in>set cs. 5 \<le> d r (snd c))
      \<longrightarrow> closestId d r cs = - 1
          \<and> transitions (fst (photoCloud d a (Some cs) (Some r))) = [])
   \<and> ((\<exists>c\<in>set cs. d r (snd c) < 5)
      \<longrightarrow> (\<exists>k<length cs.
            closestId d r cs = int (fst (cs ! k))
          \<and> d r (snd (cs ! k)) < 5
          \<and> (\<forall>j<length cs. d r (snd (cs ! j)) < 5 \<longrightarrow> d r (snd (cs ! k)) \<le> d r (snd (cs ! j)))
          \<and> (\<forall>j<k. d r (snd (cs ! j)) < 5 \<longrightarrow> d r (snd (cs ! k)) < d r (snd (cs ! j)))
          \<and> (a \<noteq> PHOTO_VIEW
              \<longrightarrow> fst (photoCloud d a (Some cs) (Some r)) =
                    [SetActivePhotoId (Some (fst (cs ! k))), SetAppState PHOTO_VIEW])))"
proof (intro conjI impI)
  assume far: "\<forall>c\<in>set cs. 5 \<le> d r (snd c)"
  have none: "\<not> (\<exists>k<length cs. d r (snd (cs ! k)) < 5)"
  proof
    assume "\<exists>k<length cs. d r (snd (cs ! k)) < 5"
    then obtain k where "k < length cs" and "d r (snd (cs ! k)) < 5"
      by blast
    with far nth_mem [of k cs] show False
      by fastforce
  qed
  with scan_invariant [of d r cs] show miss: "closestId d r cs = - 1"
    by (auto simp add: closestId_def)
  then show "transitions (fst (photoCloud d a (Some cs) (Some r))) = []"
    by (simp add: photoCloud_def)
next
  assume "\<exists>c\<in>set cs. d r (snd c) < 5"
  then have "\<not> (\<forall>c\<in>set cs. 5 \<le> d r (snd c))"
    by (auto simp add: not_le)
  with scan_invariant [of d r cs] obtain k where k: "k < length cs"
    and res: "scan d r cs (PInf, - 1) = (Fin (d r (snd (cs ! k))), int (fst (cs ! k)))"
    and near: "d r (snd (cs ! k)) < 5"
    and least: "\<forall>j<length cs. d r (snd (cs ! j)) < 5 \<longrightarrow> d r (snd (cs ! k)) \<le> d r (snd (cs ! j))"
    and first: "\<forall>j<k. d r (snd (cs ! j)) < 5 \<longrightarrow> d r (snd (cs ! k)) < d r (snd (cs ! j))"
    by blast
  from res have cid: "closestId d r cs = int (fst (cs ! k))"
    by (simp add: closestId_def)
  then have "a \<noteq> PHOTO_VIEW \<longrightarrow> fst (photoCloud d a (Some cs) (Some r)) =
      [SetActivePhotoId (Some (fst (cs ! k))), SetAppState PHOTO_VIEW]"
    by (simp add: photoCloud_def)
  with k cid near least first
  show "\<exists>k<length cs.
            closestId d r cs = int (fst (cs ! k))
          \<and> d r (snd (cs ! k)) < 5
          \<and> (\<forall>j<length cs. d r (snd (cs ! j)) < 5 \<longrightarrow> d r (snd (cs ! k)) \<le> d r (snd (cs ! j)))
          \<and> (\<forall>j<k. d r (snd (cs ! j)) < 5 \<longrightarrow> d r (snd (cs ! k)) < d r (snd (cs ! j)))
          \<and> (a \<noteq> PHOTO_VIEW
              \<longrightarrow> fst (photoCloud d a (Some cs) (Some r)) =
                    [SetActivePhotoId (Some (fst (cs ! k))), SetAppState PHOTO_VIEW])"
    by blast
qed

theorem picker_nearest_witness:
  "closestId flatDist (Ray 0 0) farShelf = - 1
   \<and> transitions (fst (photoCloud flatDist FORMED (Some farShelf) (Some (Ray 0 0)))) = []
   \<and> closestId flatDist (Ray 0 0) shelf = 1
   \<and> fst (photoCloud flatDist FORMED (Some shelf) (Some (Ray 0 0))) =
        [SetActivePhotoId (Some 1), SetAppState PHOTO_VIEW]"
proof -
  have far: "\<forall>c\<in>set farShelf. 5 \<le> flatDist (Ray 0 0) (snd c)"
    by (simp add: farShelf_def flatDist_def)
  have near: "\<exists>c\<in>set shelf. flatDist (Ray 0 0) (snd c) < 5"
    by (simp add: shelf_def flatDist_def)
  from picker_nearest [where cs = farShelf and d = flatDist and r = "Ray 0 0" and a = FORMED] far
  have 1: "closestId flatDist (Ray 0 0) farShelf = - 1
     \<and> transitions (fst (photoCloud flatDist FORMED (Some farShelf) (Some (Ray 0 0)))) = []"
    by blast
  from picker_nearest [where cs = shelf and d = flatDist and r = "Ray 0 0" and a = FORMED] near
  obtain k where k: "k < length shelf"
    and cid: "closestId flatDist (Ray 0 0) shelf = int (fst (shelf ! k))"
    and least: "\<forall>j<length shelf. flatDist (Ray 0 0) (snd (shelf ! j)) < 5
                \<longrightarrow> flatDist (Ray 0 0) (snd (shelf ! k)) \<le> flatDist (Ray 0 0) (snd (shelf ! j))"
    and first: "\<forall>j<k. flatDist (Ray 0 0) (snd (shelf ! j)) < 5
                \<longrightarrow> flatDist (Ray 0 0) (snd (shelf ! k)) < flatDist (Ray 0 0) (snd (shelf ! j))"
    and calls: "fst (photoCloud flatDist FORMED (Some shelf) (Some (Ray 0 0))) =
                    [SetActivePhotoId (Some (fst (shelf ! k))), SetAppState PHOTO_VIEW]"
    by auto
  from k have "k = 0 \<or> k = 1 \<or> k = 2 \<or> k = 3"
    by (auto simp add: shelf_def)
  moreover from least have "flatDist (Ray 0 0) (snd (shelf ! k)) \<le> 2"
    by (auto simp add: shelf_def flatDist_def dest: spec [of _ 1])
  moreover have "k \<noteq> 2"
  proof
    assume "k = 2"
    with first have "flatDist (Ray 0 0) (snd (shelf ! 1)) < 5
       \<longrightarrow> flatDist (Ray 0 0) (snd (shelf ! 2)) < flatDist (Ray 0 0) (snd (shelf ! 1))"
      by simp
    then show False
      by (simp add: shelf_def flatDist_def)
  qed
  ultimately have "k = 1"
    by (auto simp add: shelf_def flatDist_def)
  with cid calls have 2: "closestId flatDist (Ray 0 0) shelf = 1
    \<and> fst (photoCloud flatDist FORMED (Some shelf) (Some (Ray 0 0))) =
        [SetActivePhotoId (Some 1), SetAppState PHOTO_VIEW]"
    by (simp add: shelf_def)
  from 1 2 show ?thesis
    by blast
qed

text \<open>
  C1 (amended). The frame on which the picker scores a hit with the ray, the frame that
  requests \<open>PHOTO_VIEW\<close>, clears the ray; a frame on which the picker requests no
  \<open>PHOTO_VIEW\<close> leaves \<open>rayRef\<close> as it was, and in particular reading the ray when every
  candidate is at squared distance 5.0 or more does not clear it; and over any run of
  frames in which no new PinchRay is emitted the picker picks at most once, whatever ray
  was pending at the start.
\<close>

theorem ray_consumed_on_hit:
  "(PHOTO_VIEW \<in> set (transitions (fst (photoCloud d a ch rr)))
      \<longrightarrow> snd (photoCloud d a ch rr) = None)
   \<and> (PHOTO_VIEW \<notin> set (transitions (fst (photoCloud d a ch rr)))
      \<longrightarrow> snd (photoCloud d a ch rr) = rr)
   \<and> ((\<forall>c\<in>set cs. 5 \<le> d r (snd c))
      \<longrightarrow> photoCloud d a (Some cs) (Some r) = ([], Some r))
   \<and> (concat (map rays (fst (run d inps s))) = [] \<longrightarrow> picks (fst (run d inps s)) \<le> 1)"
proof (intro conjI impI)
  assume "PHOTO_VIEW \<in> set (transitions (fst (photoCloud d a ch rr)))"
  then show "snd (photoCloud d a ch rr) = None"
    using photoCloud_cases [of d a ch rr] by auto
next
  assume "PHOTO_VIEW \<notin> set (transitions (fst (photoCloud d a ch rr)))"
  then show "snd (photoCloud d a ch rr) = rr"
    using photoCloud_cases [of d a ch rr] by auto
next
  assume "\<forall>c\<in>set cs. 5 \<le> d r (snd c)"
  then have "\<not> list_ex (\<lambda>c. d r (snd c) < 5) cs"
    by (auto simp add: list_ex_iff not_less)
  then have "closestId d r cs = - 1"
    using closestId_hit [of d r cs] by simp
  then show "photoCloud d a (Some cs) (Some r) = ([], Some r)"
    by (simp add: photoCloud_def)
next
  assume "concat (map rays (fst (run d inps s))) = []"
  then show "picks (fst (run d inps s)) \<le> 1"
    by (rule one_ray_one_pick)
qed

theorem ray_consumed_on_hit_witness:
  "PHOTO_VIEW \<in> set (transitions (fst (photoCloud flatDist FORMED (Some shelf) (Some (Ray 0 0)))))
   \<and> snd (photoCloud flatDist FORMED (Some shelf) (Some (Ray 0 0))) = None
   \<and> PHOTO_VIEW \<notin> set (transitions (fst (photoCloud flatDist FORMED (Some farShelf)
        (Some (Ray 0 0)))))
   \<and> snd (photoCloud flatDist FORMED (Some farShelf) (Some (Ray 0 0))) = Some (Ray 0 0)
   \<and> photoCloud flatDist FORMED (Some farCloud) (Some (Ray 0 0)) = ([], Some (Ray 0 0))
   \<and> concat (map rays (fst (run flatDist [feedNear NoHand 1016, feedNear NoHand 1032]
        midPinchScene))) = []
   \<and> picks (fst (run flatDist [feedNear NoHand 1016, feedNear NoHand 1032] midPinchScene)) \<le> 1"
proof -
  have hit: "PHOTO_VIEW \<in> set (transitions (fst (photoCloud flatDist FORMED (Some shelf)
      (Some (Ray 0 0)))))"
    by (simp add: photoCloud_def shelf_eval)
  have miss: "PHOTO_VIEW \<notin> set (transitions (fst (photoCloud flatDist FORMED (Some farShelf)
      (Some (Ray 0 0)))))"
    by (simp add: photoCloud_inReach inReach_def farShelf_def flatDist_def)
  have far: "\<forall>c\<in>set farCloud. 5 \<le> flatDist (Ray 0 0) (snd c)"
    by (simp add: farCloud_def flatDist_def)
  have quiet: "concat (map rays (fst (run flatDist [feedNear NoHand 1016, feedNear NoHand 1032]
        midPinchScene))) = []"
    by (simp add: Let_def split_beta frame_rays handController_rays feedNear_def)
  from ray_consumed_on_hit [where d = flatDist and a = FORMED and ch = "Some shelf"
      and rr = "Some (Ray 0 0)" and inps = "[feedNear NoHand 1016, feedNear NoHand 1032]"
      and s = midPinchScene and cs = farCloud and r = "Ray 0 0"] hit quiet far
  have 1: "snd (photoCloud flatDist FORMED (Some shelf) (Some (Ray 0 0))) = None
    \<and> photoCloud flatDist FORMED (Some farCloud) (Some (Ray 0 0)) = ([], Some (Ray 0 0))
    \<and> picks (fst (run flatDist [feedNear NoHand 1016, feedNear NoHand 1032] midPinchScene)) \<le> 1"
    by blast
  from ray_consumed_on_hit [where d = flatDist and a = FORMED and ch = "Some farShelf"
      and rr = "Some (Ray 0 0)"] miss
  have 2: "snd (photoCloud flatDist FORMED (Some farShelf) (Some (Ray 0 0))) = Some (Ray 0 0)"
    by blast
  from hit miss quiet 1 2 show ?thesis
    by blast
qed

text \<open>C1 as stated fails: the ray of the pinch at 1000 ms is read by the picker on that
  frame and misses; it stays in \<open>rayRef\<close>, and on the next frame, which has no hand and
  emits no ray, the candidate has come into reach and the picker requests \<open>PHOTO_VIEW\<close>.\<close>

theorem stale_ray_counterexample:
  "map rays (fst (run flatDist [feed (Hand pinchVerdict) 1000, feedNear NoHand 1016] initialScene))
     = [[Ray 0 0], []]
   \<and> rayRef (snd (frame flatDist (feed (Hand pinchVerdict) 1000) initialScene)) = Some (Ray 0 0)
   \<and> map transitions
       (fst (run flatDist [feed (Hand pinchVerdict) 1000, feedNear NoHand 1016] initialScene))
     = [[], [PHOTO_VIEW]]"
  by (simp add: initialScene_def initialRefs_def feed_def feedNear_def pinchVerdict_def frame_def
      handController_def handPresent_def handAbsent_def pinchAction_def stateSwitching_def
      photoCloud_def farCloud_eval nearCloud_eval Let_def split_beta)


section \<open>Division by zero in the curl ratio\<close>

text \<open>
  C9. With the index knuckle on the wrist the divisor of the index curl ratio is 0: the
  ratio is \<open>Infinity\<close>, so is the average, and the hand, all four fingers curled, is
  classified Open.
\<close>

theorem curl_ratio_unguarded:
  "getDist exact knuckleOnWrist 5 = 0
   \<and> getRatio exact knuckleOnWrist 8 5 = PInf
   \<and> avgRatio exact knuckleOnWrist = PInf
   \<and> nonIndexRatio exact knuckleOnWrist = Fin 0.5
   \<and> classify exact knuckleOnWrist =
       Some \<lparr> isFist = False, isOpen = True, isPinch = False, position = Vec2 0.5 0.8 \<rparr>"
proof -
  have d: "getDist exact knuckleOnWrist 5 = 0" "getDist exact knuckleOnWrist 8 = 0.1"
    by (simp_all add: getDist_def knuckleOnWrist_def)
  then have r: "getRatio exact knuckleOnWrist 8 5 = PInf"
    by (simp add: getRatio_def)
  have o: "getRatio exact knuckleOnWrist 12 9 = Fin 0.5"
    "getRatio exact knuckleOnWrist 16 13 = Fin 0.5"
    "getRatio exact knuckleOnWrist 20 17 = Fin 0.5"
    by (simp_all add: getRatio_def getDist_def knuckleOnWrist_def)
  have a: "avgRatio exact knuckleOnWrist = PInf"
    by (simp add: avgRatio_def r o)
  have n: "nonIndexRatio exact knuckleOnWrist = Fin 0.5"
    by (simp add: nonIndexRatio_def o)
  have p: "pinchDist exact knuckleOnWrist = 0"
    by (simp add: pinchDist_def knuckleOnWrist_def)
  have len: "length knuckleOnWrist = 21"
    by (simp add: knuckleOnWrist_def)
  have pos: "knuckleOnWrist ! 4 = Vec2 0.5 0.8" "knuckleOnWrist ! 8 = Vec2 0.5 0.8"
    by (simp_all add: knuckleOnWrist_def)
  have c: "classify exact knuckleOnWrist =
       Some \<lparr> isFist = False, isOpen = True, isPinch = False, position = Vec2 0.5 0.8 \<rparr>"
    by (simp add: classify_def len rule_fist_def rule_pinch_def rule_open_def rawPos_def a n p
        pos js_gt_def isPinchCandidate_def)
  from d(1) r a n c show ?thesis by blast
qed

end
